theory Spec2Isabelle
  imports Main "HOL-Library.Char_ord" "HOL-Library.List_Lexorder"
begin

section \<open>JavaScript strings\<close>

text \<open>
  A string is a list of 8-bit characters. Header values are byte strings in the Fetch
  standard, so the model is exact for them. Text (a decoded body, a URL) is held as its
  UTF-8 bytes: every pattern of \<^verbatim>\<open>worker.js\<close> is ASCII, and an ASCII byte never
  occurs inside the encoding of another character, so searching and replacing on the bytes
  is searching and replacing on the text.
\<close>

definition toLowerCase_char :: "char \<Rightarrow> char" where
  "toLowerCase_char c =
     (let n = (of_char c :: nat)
      in if (65 \<le> n \<and> n \<le> 90) \<or> (192 \<le> n \<and> n \<le> 222 \<and> n \<noteq> 215)
         then char_of (n + 32) else c)"

definition toLowerCase :: "string \<Rightarrow> string" where
  "toLowerCase s = map toLowerCase_char s"

text \<open>
  \<^verbatim>\<open>Canonicalize\<close> of a regular expression with the flag \<^verbatim>\<open>i\<close> and without \<^verbatim>\<open>u\<close>:
  the upper-case mapping, except that a character outside ASCII is never sent into ASCII.
  The characters U+00B5, U+00DF and U+00FF have no upper-case form among the 8-bit
  characters and stay distinct from all of them.
\<close>

definition canonicalize :: "char \<Rightarrow> char" where
  "canonicalize c =
     (let n = (of_char c :: nat)
      in if (97 \<le> n \<and> n \<le> 122) \<or> (224 \<le> n \<and> n \<le> 254 \<and> n \<noteq> 247)
         then char_of (n - 32) else c)"

definition startsWith :: "string \<Rightarrow> string \<Rightarrow> bool" where
  "startsWith s p = (take (length p) s = p)"

fun includesStr :: "string \<Rightarrow> string \<Rightarrow> bool" where
  "includesStr [] p = (p = [])"
| "includesStr (c # cs) p = (startsWith (c # cs) p \<or> includesStr cs p)"

text \<open>A literal pattern of a case-insensitive regular expression, matched at the head.\<close>

definition matchesCI :: "string \<Rightarrow> string \<Rightarrow> bool" where
  "matchesCI pat s = (map canonicalize (take (length pat) s) = map canonicalize pat)"

text \<open>\<^verbatim>\<open>/pat/i.test(s)\<close> for a literal pattern.\<close>

fun testCI :: "string \<Rightarrow> string \<Rightarrow> bool" where
  "testCI pat [] = (pat = [])"
| "testCI pat (c # cs) = (matchesCI pat (c # cs) \<or> testCI pat cs)"

subsection \<open>Percent-encoding\<close>

definition uriUnescaped :: "char \<Rightarrow> bool" where
  "uriUnescaped c =
     (let n = (of_char c :: nat)
      in (65 \<le> n \<and> n \<le> 90) \<or> (97 \<le> n \<and> n \<le> 122) \<or> (48 \<le> n \<and> n \<le> 57)
         \<or> c \<in> set ''-_.!~*'()'')"

definition hexDigit :: "nat \<Rightarrow> char" where
  "hexDigit n = ''0123456789ABCDEF'' ! (n mod 16)"

definition percentEscape :: "char \<Rightarrow> string" where
  "percentEscape c = [CHR ''%'', hexDigit (of_char c div 16), hexDigit (of_char c mod 16)]"

definition encodeURIComponent :: "string \<Rightarrow> string" where
  "encodeURIComponent s = concat (map (\<lambda>c. if uriUnescaped c then [c] else percentEscape c) s)"

definition hexValue :: "char \<Rightarrow> nat option" where
  "hexValue c =
     (let n = (of_char c :: nat)
      in if 48 \<le> n \<and> n \<le> 57 then Some (n - 48)
         else if 65 \<le> n \<and> n \<le> 70 then Some (n - 55)
         else if 97 \<le> n \<and> n \<le> 102 then Some (n - 87)
         else None)"

text \<open>An escape \<^verbatim>\<open>%XX\<close> at the head of a string: its octet and the rest.\<close>

fun readEscape :: "string \<Rightarrow> (nat \<times> string) option" where
  "readEscape (p # h1 # h2 # rest) =
     (if p = CHR ''%''
      then (case (hexValue h1, hexValue h2) of
              (Some a, Some b) \<Rightarrow> Some (16 * a + b, rest)
            | _ \<Rightarrow> None)
      else None)"
| "readEscape _ = None"

fun readEscapes :: "nat \<Rightarrow> string \<Rightarrow> (nat list \<times> string) option" where
  "readEscapes 0 s = Some ([], s)"
| "readEscapes (Suc k) s =
     (case readEscape s of
        None \<Rightarrow> None
      | Some (b, rest) \<Rightarrow>
          (case readEscapes k rest of
             None \<Rightarrow> None
           | Some (bs, rest') \<Rightarrow> Some (b # bs, rest')))"

text \<open>The number of leading 1 bits of an octet; 5 stands for five or more.\<close>

definition leadingOnes :: "nat \<Rightarrow> nat" where
  "leadingOnes b =
     (if b < 128 then 0 else if b < 192 then 1 else if b < 224 then 2
      else if b < 240 then 3 else if b < 248 then 4 else 5)"

definition continuation :: "nat \<Rightarrow> bool" where
  "continuation b = (128 \<le> b \<and> b \<le> 191)"

text \<open>The octets are the UTF-8 encoding of one code point (no overlong form, no surrogate).\<close>

definition validUtf8 :: "nat list \<Rightarrow> bool" where
  "validUtf8 bs =
     (case bs of
        [a, b] \<Rightarrow> 194 \<le> a \<and> a \<le> 223 \<and> continuation b
      | [a, b, c] \<Rightarrow>
          continuation c \<and>
          ((a = 224 \<and> 160 \<le> b \<and> b \<le> 191) \<or> (225 \<le> a \<and> a \<le> 236 \<and> continuation b) \<or>
           (a = 237 \<and> 128 \<le> b \<and> b \<le> 159) \<or> (238 \<le> a \<and> a \<le> 239 \<and> continuation b))
      | [a, b, c, d] \<Rightarrow>
          continuation c \<and> continuation d \<and>
          ((a = 240 \<and> 144 \<le> b \<and> b \<le> 191) \<or> (241 \<le> a \<and> a \<le> 243 \<and> continuation b) \<or>
           (a = 244 \<and> 128 \<le> b \<and> b \<le> 143))
      | _ \<Rightarrow> False)"

text \<open>
  \<^verbatim>\<open>decodeURIComponent\<close>, after the abstract operation Decode of ECMA-262 with an empty
  reserved set; \<open>None\<close> is the URIError it throws.
\<close>

function decodeURIComponent :: "string \<Rightarrow> string option" where
  "decodeURIComponent [] = Some []"
| "decodeURIComponent (c # cs) =
     (if c \<noteq> CHR ''%'' then map_option ((#) c) (decodeURIComponent cs)
      else (case readEscape (c # cs) of
              None \<Rightarrow> None
            | Some (b, rest) \<Rightarrow>
                if b < 128 then map_option ((#) (char_of b)) (decodeURIComponent rest)
                else if leadingOnes b = 1 \<or> 4 < leadingOnes b then None
                else (case readEscapes (leadingOnes b - 1) rest of
                        None \<Rightarrow> None
                      | Some (bs, rest') \<Rightarrow>
                          if validUtf8 (b # bs)
                          then map_option ((@) (map char_of (b # bs))) (decodeURIComponent rest')
                          else None)))"
  by pat_completeness auto
termination
proof (relation "measure length")
  have esc: "readEscape s = Some (b, r) \<Longrightarrow> length r < length s" for s b r
    by (cases s rule: readEscape.cases) (auto split: if_splits option.splits)
  have escs: "readEscapes k s = Some (bs, r) \<Longrightarrow> length r \<le> length s" for k s bs r
  proof (induction k arbitrary: s bs r)
    case 0
    then show ?case by simp
  next
    case (Suc k)
    then show ?case
      by (fastforce split: option.splits dest: esc)
  qed
  show "wf (measure length)" by simp
  show "(cs, c # cs) \<in> measure length" for c cs by simp
  show "(rest, c # cs) \<in> measure length"
    if "readEscape (c # cs) = Some x" "(b, rest) = x" for c cs x b rest
    using that esc [of "c # cs" b rest] by simp
  show "(rest', c # cs) \<in> measure length"
    if "readEscape (c # cs) = Some x" "(b, rest) = x"
      "readEscapes (leadingOnes b - 1) rest = Some y" "(bs, rest') = y"
    for c cs x b rest y bs rest'
    using that esc [of "c # cs" b rest] escs [of "leadingOnes b - 1" rest bs rest'] by simp
qed

subsection \<open>Numbers and JSON\<close>

definition digitChar :: "nat \<Rightarrow> char" where
  "digitChar n = ''0123456789'' ! (n mod 10)"

text \<open>\<^verbatim>\<open>Number.prototype.toString\<close> on a non-negative integer.\<close>

fun numberToString :: "nat \<Rightarrow> string" where
  "numberToString n =
     (if n < 10 then [digitChar n] else numberToString (n div 10) @ [digitChar n])"

declare numberToString.simps [simp del]

definition lowerHexDigit :: "nat \<Rightarrow> char" where
  "lowerHexDigit n = ''0123456789abcdef'' ! (n mod 16)"

definition jsonEscape :: "char \<Rightarrow> string" where
  "jsonEscape c =
     (let n = (of_char c :: nat)
      in if n = 34 then [CHR 0x5C, CHR 0x22]
         else if n = 92 then [CHR 0x5C, CHR 0x5C]
         else if n = 8 then [CHR 0x5C, CHR ''b'']
         else if n = 12 then [CHR 0x5C, CHR ''f'']
         else if n = 10 then [CHR 0x5C, CHR ''n'']
         else if n = 13 then [CHR 0x5C, CHR ''r'']
         else if n = 9 then [CHR 0x5C, CHR ''t'']
         else if n < 32 then [CHR 0x5C, CHR ''u'', CHR ''0'', CHR ''0'',
                              lowerHexDigit (n div 16), lowerHexDigit n]
         else [c])"

definition jsonQuote :: "string \<Rightarrow> string" where
  "jsonQuote s = [CHR 0x22] @ concat (map jsonEscape s) @ [CHR 0x22]"

text \<open>\<^verbatim>\<open>JSON.stringify\<close> on an object whose properties are strings, in property order.\<close>

fun jsonMembers :: "(string \<times> string) list \<Rightarrow> string" where
  "jsonMembers [] = []"
| "jsonMembers [(k, v)] = jsonQuote k @ '':'' @ jsonQuote v"
| "jsonMembers ((k, v) # kvs) = jsonQuote k @ '':'' @ jsonQuote v @ '','' @ jsonMembers kvs"

definition JSON_stringify :: "(string \<times> string) list \<Rightarrow> string" where
  "JSON_stringify obj = ''{'' @ jsonMembers obj @ ''}''"

section \<open>The platform: headers, URLs, requests, responses\<close>

text \<open>
  A header list keeps its entries in order, names as they were given; names are compared
  without regard to case. \<^verbatim>\<open>append\<close> and \<^verbatim>\<open>set\<close> also strip white space around a value
  and reject some bytes: the values \<^verbatim>\<open>worker.js\<close> writes have neither.
\<close>

type_synonym headers = "(string \<times> string) list"

definition sameName :: "string \<Rightarrow> string \<Rightarrow> bool" where
  "sameName a b = (toLowerCase a = toLowerCase b)"

definition headers_getAll :: "string \<Rightarrow> headers \<Rightarrow> string list" where
  "headers_getAll name hs = map snd (filter (\<lambda>h. sameName (fst h) name) hs)"

fun joinWith :: "string \<Rightarrow> string list \<Rightarrow> string" where
  "joinWith sep [] = []"
| "joinWith sep [v] = v"
| "joinWith sep (v # vs) = v @ sep @ joinWith sep vs"

definition headers_get :: "string \<Rightarrow> headers \<Rightarrow> string option" where
  "headers_get name hs =
     (if headers_getAll name hs = [] then None
      else Some (joinWith '', '' (headers_getAll name hs)))"

definition headers_delete :: "string \<Rightarrow> headers \<Rightarrow> headers" where
  "headers_delete name hs = filter (\<lambda>h. \<not> sameName (fst h) name) hs"

definition headers_append :: "string \<Rightarrow> string \<Rightarrow> headers \<Rightarrow> headers" where
  "headers_append name v hs = hs @ [(name, v)]"

text \<open>\<^verbatim>\<open>set\<close>: the first entry of that name takes the value and the others go; else append.\<close>

fun setFirst :: "string \<Rightarrow> string \<Rightarrow> headers \<Rightarrow> headers" where
  "setFirst name v [] = []"
| "setFirst name v (h # hs) =
     (if sameName (fst h) name then (fst h, v) # headers_delete name hs
      else h # setFirst name v hs)"

definition headers_set :: "string \<Rightarrow> string \<Rightarrow> headers \<Rightarrow> headers" where
  "headers_set name v hs =
     (if headers_getAll name hs = [] then headers_append name v hs else setFirst name v hs)"

text \<open>
  Iteration: names in lower case, sorted, the values of one name joined, except those of
  \<^verbatim>\<open>set-cookie\<close>.
\<close>

definition headers_entries :: "headers \<Rightarrow> (string \<times> string) list" where
  "headers_entries hs =
     concat (map (\<lambda>n. if n = ''set-cookie'' then map (Pair n) (headers_getAll n hs)
                       else [(n, joinWith '', '' (headers_getAll n hs))])
                 (remdups (sort (map (\<lambda>h. toLowerCase (fst h)) hs))))"

record url =
  href :: string
  protocol :: string
  host :: string
  hostname :: string
  pathname :: string
  search :: string
  origin :: string

datatype js_error = JsError (message: string)

text \<open>A body is absent, a stream of the platform (of type \<open>'b\<close>), or a text.\<close>

datatype 'b body = Null | Stream 'b | Text string

text \<open>
  \<open>req_url\<close> holds \<^verbatim>\<open>new URL(request.url)\<close>: the URL of a request is a serialised URL,
  which parses.
\<close>

record 'b request =
  req_url :: url
  req_method :: string
  req_headers :: headers
  req_body :: "'b body"
  req_redirect :: string

record 'b response =
  res_status :: nat
  res_statusText :: string
  res_headers :: headers
  res_body :: "'b body"
  res_url :: string

text \<open>
  What \<^verbatim>\<open>worker.js\<close> calls and does not define: the URL parser with and without a base,
  \<^verbatim>\<open>fetch\<close>, and the reading of a stream as text. Each may throw; the thrown error is a
  value. The constructor \<^verbatim>\<open>Response\<close> is taken as total: the statuses outside 200..599
  and the text body on a null-body status (101, 204, 205, 304), which it refuses, are left
  out. A response built with no \<^verbatim>\<open>statusText\<close> has the empty status text of the Fetch
  standard.
\<close>

record 'b environment =
  newURL :: "string \<Rightarrow> js_error + url"
  newURLWithBase :: "string \<Rightarrow> string \<Rightarrow> js_error + url"
  fetch :: "'b request \<Rightarrow> js_error + 'b response"
  readText :: "'b \<Rightarrow> js_error + string"

definition newRequest ::
    "'b environment \<Rightarrow> string \<Rightarrow> headers \<Rightarrow> string \<Rightarrow> 'b body \<Rightarrow> string \<Rightarrow> js_error + 'b request" where
  "newRequest env input hs method b redirect =
     (case newURL env input of
        Inl e \<Rightarrow> Inl e
      | Inr u \<Rightarrow> Inr \<lparr>req_url = u, req_method = method, req_headers = hs,
                       req_body = b, req_redirect = redirect\<rparr>)"

definition response_text :: "'b environment \<Rightarrow> 'b response \<Rightarrow> js_error + string" where
  "response_text env response =
     (case res_body response of
        Null \<Rightarrow> Inr []
      | Text t \<Rightarrow> Inr t
      | Stream st \<Rightarrow> readText env st)"

section \<open>worker.js\<close>

definition PROXY_DOMAIN :: string where
  "PROXY_DOMAIN = ''''"

subsection \<open>The header rules\<close>

definition specialCases :: "(string \<times> (string \<times> string) list) list" where
  "specialCases =
     [(''i.pximg.net'', [(''Origin'', ''DELETE''), (''Referer'', ''https://www.pixiv.net/'')]),
      (''i-cf.pximg.net'', [(''Origin'', ''DELETE''), (''Referer'', ''https://www.pixiv.net/'')]),
      (''*'', [(''Origin'', ''DELETE''), (''Referer'', ''DELETE'')])]"

text \<open>
  \<^verbatim>\<open>specialCases\<close> is an object literal, so \<^verbatim>\<open>specialCases[key]\<close> also finds what the
  object inherits from \<^verbatim>\<open>Object.prototype\<close>: functions, and for \<^verbatim>\<open>__proto__\<close> the prototype
  itself. Those values are objects, hence true for \<^verbatim>\<open>||\<close>, and \<^verbatim>\<open>Object.entries\<close> lists
  nothing for them.
\<close>

definition objectPrototypeKeys :: "string list" where
  "objectPrototypeKeys =
     [''constructor'', ''__defineGetter__'', ''__defineSetter__'', ''hasOwnProperty'',
      ''__lookupGetter__'', ''__lookupSetter__'', ''isPrototypeOf'', ''propertyIsEnumerable'',
      ''toString'', ''valueOf'', ''__proto__'', ''toLocaleString'']"

datatype js_value = Rules "(string \<times> string) list" | Inherited | Undefined

definition specialCases_get :: "string \<Rightarrow> js_value" where
  "specialCases_get key =
     (case map_of specialCases key of
        Some r \<Rightarrow> Rules r
      | None \<Rightarrow> if key \<in> set objectPrototypeKeys then Inherited else Undefined)"

text \<open>
  \<^verbatim>\<open>Object.entries(specialCases[hostname] || specialCases["*"])\<close>. The last alternative is
  never taken: \<^verbatim>\<open>"*"\<close> is a property of the table.
\<close>

definition ruleEntries :: "string \<Rightarrow> (string \<times> string) list" where
  "ruleEntries name =
     (case (case specialCases_get name of
              Undefined \<Rightarrow> specialCases_get ''*''
            | v \<Rightarrow> v) of
        Rules r \<Rightarrow> r
      | Inherited \<Rightarrow> []
      | Undefined \<Rightarrow> [])"

definition applyRule :: "string \<times> string \<Rightarrow> headers \<Rightarrow> headers" where
  "applyRule rule hs =
     (if snd rule = ''KEEP'' then hs
      else if snd rule = ''DELETE'' then headers_delete (fst rule) hs
      else headers_set (fst rule) (snd rule) hs)"

definition handleSpecialCases :: "'b request \<Rightarrow> 'b request" where
  "handleSpecialCases request =
     request\<lparr>req_headers :=
       fold applyRule (ruleEntries (hostname (req_url request))) (req_headers request)\<rparr>"

subsection \<open>Cookies\<close>

text \<open>
  \<^verbatim>\<open>text.replace(re, ...)\<close> for a regular expression \<^verbatim>\<open>re\<close> without the flag \<^verbatim>\<open>g\<close> that
  matches no empty text: the first match is replaced. The argument \<open>m\<close> tells, for a text,
  whether \<^verbatim>\<open>re\<close> matches at its head, and then how many characters and what takes their
  place.
\<close>

fun replaceFirst :: "(string \<Rightarrow> (nat \<times> string) option) \<Rightarrow> string \<Rightarrow> string" where
  "replaceFirst m [] = []"
| "replaceFirst m (c # cs) =
     (case m (c # cs) of
        None \<Rightarrow> c # replaceFirst m cs
      | Some (n, r) \<Rightarrow> r @ drop (n - 1) cs)"

text \<open>
  \<^verbatim>\<open>/domain=[^;]+/i\<close> with the replacement \<^verbatim>\<open>`domain=${PROXY_DOMAIN}`\<close>: \<^verbatim>\<open>domain=\<close> and
  all characters other than \<^verbatim>\<open>;\<close> that follow, at least one. The replacement has no
  \<^verbatim>\<open>$\<close>, so it is taken as it is.
\<close>

definition matchDomain :: "string \<Rightarrow> (nat \<times> string) option" where
  "matchDomain s =
     (if matchesCI ''domain='' s \<and> takeWhile (\<lambda>x. x \<noteq> CHR '';'') (drop 7 s) \<noteq> []
      then Some (7 + length (takeWhile (\<lambda>x. x \<noteq> CHR '';'') (drop 7 s)),
                 ''domain='' @ PROXY_DOMAIN)
      else None)"

definition replaceDomain :: "string \<Rightarrow> string" where
  "replaceDomain cookie = replaceFirst matchDomain cookie"

text \<open>The body of the \<^verbatim>\<open>forEach\<close> of \<^verbatim>\<open>handleSetCookieHeaders\<close>, up to the append.\<close>

definition rewriteCookie :: "string \<Rightarrow> string" where
  "rewriteCookie cookie =
     (let modifiedCookie =
            (if includesStr (toLowerCase cookie) ''domain='' then replaceDomain cookie
             else cookie @ ''; Domain='' @ PROXY_DOMAIN)
      in if \<not> testCI ''path='' modifiedCookie then modifiedCookie @ ''; Path=/''
         else modifiedCookie)"

definition handleSetCookieHeaders :: "'b response \<Rightarrow> headers" where
  "handleSetCookieHeaders response =
     (let setCookies = headers_getAll ''Set-Cookie'' (res_headers response);
          newHeaders = headers_delete ''Set-Cookie'' (res_headers response)
      in fold (\<lambda>cookie hs. headers_append ''Set-Cookie'' (rewriteCookie cookie) hs)
              setCookies newHeaders)"

subsection \<open>Redirects\<close>

definition ensureProtocol :: "string \<Rightarrow> string \<Rightarrow> string" where
  "ensureProtocol u defaultProtocol =
     (if startsWith u ''http://'' \<or> startsWith u ''https://'' then u
      else defaultProtocol @ ''//'' @ u)"

definition handleRedirect :: "'b environment \<Rightarrow> 'b response \<Rightarrow> js_error + 'b response" where
  "handleRedirect env response =
     (case headers_get ''location'' (res_headers response) of
        None \<Rightarrow> Inr \<lparr>res_status = res_status response, res_statusText = res_statusText response,
                      res_headers = res_headers response, res_body = Null, res_url = ''''\<rparr>
      | Some location \<Rightarrow>
          if location = [] then
            Inr \<lparr>res_status = res_status response, res_statusText = res_statusText response,
                 res_headers = res_headers response, res_body = Null, res_url = ''''\<rparr>
          else
            (case (case newURLWithBase env location (res_url response) of
                     Inr locationUrl \<Rightarrow> Inr (''/'' @ encodeURIComponent (href locationUrl))
                   | Inl e \<Rightarrow>
                       (case newURL env (res_url response) of
                          Inl e' \<Rightarrow> Inl e'
                        | Inr baseUrl \<Rightarrow>
                            (case newURLWithBase env location (href baseUrl) of
                               Inl e' \<Rightarrow> Inl e'
                             | Inr absoluteUrl \<Rightarrow>
                                 Inr (''/'' @ encodeURIComponent (href absoluteUrl))))) of
               Inl e \<Rightarrow> Inl e
             | Inr modifiedLocation \<Rightarrow>
                 Inr \<lparr>res_status = res_status response, res_statusText = res_statusText response,
                      res_headers = headers_set ''Location'' modifiedLocation (res_headers response),
                      res_body = Null, res_url = ''''\<rparr>))"

subsection \<open>HTML\<close>

text \<open>
  \<^verbatim>\<open>text.replace(re, ...)\<close> for a global regular expression \<^verbatim>\<open>re\<close> that matches no empty
  text. The argument \<open>m\<close> tells, for a text, whether \<^verbatim>\<open>re\<close> matches at its head, and then
  how many characters and what takes their place. The search goes on after the match.
\<close>

fun replaceAll :: "(string \<Rightarrow> (nat \<times> string) option) \<Rightarrow> string \<Rightarrow> string" where
  "replaceAll m [] = []"
| "replaceAll m (c # cs) =
     (case m (c # cs) of
        None \<Rightarrow> c # replaceAll m cs
      | Some (n, r) \<Rightarrow> r @ replaceAll m (drop (n - 1) cs))"

definition attributeNames :: "string list" where
  "attributeNames = [''href'', ''src'', ''action'']"

text \<open>
  \<^verbatim>\<open>((href|src|action)=["'])\<close> at the head of a text: the first group, the second group
  and the text after them.
\<close>

definition matchAttribute :: "string \<Rightarrow> (string \<times> string \<times> string) option" where
  "matchAttribute s =
     (case find (\<lambda>a. startsWith s (a @ ''='')) attributeNames of
        None \<Rightarrow> None
      | Some a \<Rightarrow>
          (case drop (length a + 1) s of
             [] \<Rightarrow> None
           | q # rest \<Rightarrow>
               if q = CHR 0x22 \<or> q = CHR 0x27 then Some (a @ ''='' @ [q], a, rest) else None))"

text \<open>
  \<^verbatim>\<open>/((href|src|action)=["'])\/(?!\/)/g\<close> with the replacement \<^verbatim>\<open>$1/<encodedOrigin>/\<close>;
  \<^verbatim>\<open>encodeURIComponent\<close> returns no \<^verbatim>\<open>$\<close>, so only \<^verbatim>\<open>$1\<close> is substituted.
\<close>

definition matchRootRelative :: "string \<Rightarrow> string \<Rightarrow> (nat \<times> string) option" where
  "matchRootRelative encodedOrigin s =
     (case matchAttribute s of
        None \<Rightarrow> None
      | Some (p1, p2, rest) \<Rightarrow>
          (case rest of
             [] \<Rightarrow> None
           | c # rest' \<Rightarrow>
               if c = CHR ''/'' \<and> \<not> startsWith rest' ''/''
               then Some (length p1 + 1, p1 @ ''/'' @ encodedOrigin @ ''/'')
               else None))"

definition hostChar :: "char \<Rightarrow> bool" where
  "hostChar c = (c \<noteq> CHR ''/'' \<and> c \<noteq> CHR 0x22 \<and> c \<noteq> CHR 0x27)"

text \<open>
  \<^verbatim>\<open>/((href|src|action)=["'])\/\/([^\/"']+)/g\<close> with the replacement function
  \<^verbatim>\<open>(match, p1, p2) => ...\<close>: its parameters are the first and the second group.
\<close>

definition matchProtocolRelative :: "string \<Rightarrow> (nat \<times> string) option" where
  "matchProtocolRelative s =
     (case matchAttribute s of
        None \<Rightarrow> None
      | Some (p1, p2, rest) \<Rightarrow>
          if startsWith rest ''//'' \<and> takeWhile hostChar (drop 2 rest) \<noteq> []
          then Some (length p1 + 2 + length (takeWhile hostChar (drop 2 rest)),
                     p1 @ ''/'' @ encodeURIComponent (''https://'' @ p2))
          else None)"

definition rewriteRootRelative :: "string \<Rightarrow> string \<Rightarrow> string" where
  "rewriteRootRelative encodedOrigin t = replaceAll (matchRootRelative encodedOrigin) t"

definition rewriteProtocolRelative :: "string \<Rightarrow> string" where
  "rewriteProtocolRelative t = replaceAll matchProtocolRelative t"

definition handleHtmlContent ::
    "'b environment \<Rightarrow> 'b response \<Rightarrow> string \<Rightarrow> string \<Rightarrow> string \<Rightarrow> js_error + string" where
  "handleHtmlContent env response proto hst actualUrlStr =
     (case response_text env response of
        Inl e \<Rightarrow> Inl e
      | Inr originalText \<Rightarrow>
          (case newURL env actualUrlStr of
             Inl e \<Rightarrow> Inl e
           | Inr u \<Rightarrow>
               (let targetOrigin = origin u;
                    encodedOrigin = encodeURIComponent targetOrigin;
                    modifiedText = rewriteRootRelative encodedOrigin originalText
                in Inr (rewriteProtocolRelative modifiedText))))"

subsection \<open>The handler\<close>

definition jsonResponse :: "(string \<times> string) list \<Rightarrow> nat \<Rightarrow> 'b response" where
  "jsonResponse data status =
     \<lparr>res_status = status, res_statusText = '''',
      res_headers = [(''Content-Type'', ''application/json; charset=utf-8'')],
      res_body = Text (JSON_stringify data), res_url = ''''\<rparr>"

definition filterHeaders :: "headers \<Rightarrow> (string \<Rightarrow> bool) \<Rightarrow> headers" where
  "filterHeaders hs filterFunc = filter (\<lambda>h. filterFunc (fst h)) (headers_entries hs)"

definition setNoCacheHeaders :: "headers \<Rightarrow> headers" where
  "setNoCacheHeaders hs = headers_set ''Cache-Control'' ''no-store'' hs"

definition setCorsHeaders :: "headers \<Rightarrow> headers" where
  "setCorsHeaders hs =
     headers_set ''Access-Control-Allow-Headers'' ''*''
       (headers_set ''Access-Control-Allow-Methods'' ''GET, POST, PUT, DELETE''
          (headers_set ''Access-Control-Allow-Origin'' ''*'' hs))"

definition redirectStatuses :: "nat list" where
  "redirectStatuses = [301, 302, 303, 307, 308]"

text \<open>
  \<^verbatim>\<open>handleRequest\<close> is given in three parts. \<open>buildRequest\<close> is the source from
  \<^verbatim>\<open>ensureProtocol\<close> to \<^verbatim>\<open>handleSpecialCases\<close>: it returns the final \<^verbatim>\<open>actualUrlStr\<close>
  and the request that is fetched. \<open>rewriteResponse\<close> is the source after \<^verbatim>\<open>fetch\<close>.
  \<open>handleRequest\<close> puts them together inside the \<^verbatim>\<open>try\<close>.
\<close>

definition buildRequest ::
    "'b environment \<Rightarrow> 'b request \<Rightarrow> string \<Rightarrow> js_error + (string \<times> 'b request)" where
  "buildRequest env request decoded =
     (let actualUrlStr = ensureProtocol decoded (protocol (req_url request))
      in case newURL env actualUrlStr of
           Inl e \<Rightarrow> Inl e
         | Inr targetUrl \<Rightarrow>
             (let actualUrlStr' = actualUrlStr @ search (req_url request);
                  newHeaders = filterHeaders (req_headers request)
                                 (\<lambda>name. \<not> startsWith (toLowerCase name) ''cf-'')
              in case newRequest env actualUrlStr' newHeaders (req_method request)
                        (if req_method request = ''GET'' \<or> req_method request = ''HEAD''
                         then Null else req_body request)
                        ''manual'' of
                   Inl e \<Rightarrow> Inl e
                 | Inr modifiedRequest \<Rightarrow> Inr (actualUrlStr', handleSpecialCases modifiedRequest)))"

definition rewriteResponse ::
    "'b environment \<Rightarrow> 'b request \<Rightarrow> string \<Rightarrow> 'b response \<Rightarrow> js_error + 'b response" where
  "rewriteResponse env request actualUrlStr response =
     (let headersWithCookies = handleSetCookieHeaders response
      in if res_status response \<in> set redirectStatuses then handleRedirect env response
         else if (case headers_get ''Content-Type'' (res_headers response) of
                    None \<Rightarrow> False
                  | Some ct \<Rightarrow> includesStr ct ''text/html'')
         then (case handleHtmlContent env response (protocol (req_url request))
                      (host (req_url request)) actualUrlStr of
                 Inl e \<Rightarrow> Inl e
               | Inr b \<Rightarrow>
                   Inr \<lparr>res_status = res_status response,
                        res_statusText = res_statusText response,
                        res_headers =
                          setCorsHeaders (setNoCacheHeaders
                            (headers_set ''Content-Length'' (numberToString (length b))
                               headersWithCookies)),
                        res_body = Text b, res_url = ''''\<rparr>)
         else Inr \<lparr>res_status = res_status response,
                   res_statusText = res_statusText response,
                   res_headers = setCorsHeaders (setNoCacheHeaders headersWithCookies),
                   res_body = res_body response, res_url = ''''\<rparr>)"

definition proxy :: "'b environment \<Rightarrow> 'b request \<Rightarrow> string \<Rightarrow> js_error + 'b response" where
  "proxy env request decoded =
     (case buildRequest env request decoded of
        Inl e \<Rightarrow> Inl e
      | Inr (actualUrlStr, modifiedRequest) \<Rightarrow>
          (case fetch env modifiedRequest of
             Inl e \<Rightarrow> Inl e
           | Inr response \<Rightarrow> rewriteResponse env request actualUrlStr response))"

text \<open>
  \<^verbatim>\<open>getRootHtml\<close> returns one template literal. At line 341 the literal holds
  \<^verbatim>\<open>${currentOrigin}\<close> and \<^verbatim>\<open>${encodedUrl}\<close>, meant for the script of the page and not
  escaped: they are evaluated when the function runs, no such variable is in scope, and the
  first throws a \<^verbatim>\<open>ReferenceError\<close>. The call stands inside the \<^verbatim>\<open>try\<close> of the handler.
\<close>

definition getRootHtml :: "js_error + string" where
  "getRootHtml = Inl (JsError ''currentOrigin is not defined'')"

definition handleRequest :: "'b environment \<Rightarrow> 'b request \<Rightarrow> 'b response" where
  "handleRequest env request =
     (if pathname (req_url request) = ''/'' then
        (case getRootHtml of
           Inl e \<Rightarrow> jsonResponse [(''error'', message e)] 500
         | Inr html \<Rightarrow>
             \<lparr>res_status = 200, res_statusText = '''',
              res_headers = [(''Content-Type'', ''text/html; charset=utf-8'')],
              res_body = Text html, res_url = ''''\<rparr>)
      else
        (case decodeURIComponent (drop 1 (pathname (req_url request))) of
           None \<Rightarrow> jsonResponse [(''error'', ''Invalid URL encoding.'')] 400
         | Some decoded \<Rightarrow>
             (case proxy env request decoded of
                Inl e \<Rightarrow> jsonResponse [(''error'', message e)] 500
              | Inr r \<Rightarrow> r)))"

text \<open>
  The origin response that \<open>handleRequest\<close> receives, with the final \<^verbatim>\<open>actualUrlStr\<close>, when
  it comes as far as a fetch that succeeds.
\<close>

definition fetched :: "'b environment \<Rightarrow> 'b request \<Rightarrow> (string \<times> 'b response) option" where
  "fetched env request =
     (if pathname (req_url request) = ''/'' then None
      else (case decodeURIComponent (drop 1 (pathname (req_url request))) of
              None \<Rightarrow> None
            | Some decoded \<Rightarrow>
                (case buildRequest env request decoded of
                   Inl e \<Rightarrow> None
                 | Inr (actualUrlStr, modifiedRequest) \<Rightarrow>
                     (case fetch env modifiedRequest of
                        Inl e \<Rightarrow> None
                      | Inr response \<Rightarrow> Some (actualUrlStr, response)))))"

section \<open>An environment for examples\<close>

text \<open>
  A small world to run the handler in: a proxy at \<^verbatim>\<open>proxy.example\<close>, a URL parser that
  knows the URLs below, and origins that answer them. A stream is the text it carries.
\<close>

definition mkUrl :: "string \<Rightarrow> string \<Rightarrow> string \<Rightarrow> string \<Rightarrow> url" where
  "mkUrl pr h p q =
     \<lparr>href = pr @ ''//'' @ h @ p @ q, protocol = pr, host = h, hostname = h,
      pathname = p, search = q, origin = pr @ ''//'' @ h\<rparr>"

definition exampleURLs :: "(string \<times> url) list" where
  "exampleURLs =
     [(''https://a.com/x'', mkUrl ''https:'' ''a.com'' ''/x'' ''''),
      (''https://a.com/empty'', mkUrl ''https:'' ''a.com'' ''/empty'' ''''),
      (''https://a.com/bad'', mkUrl ''https:'' ''a.com'' ''/bad'' ''''),
      (''https://a.com/page'', mkUrl ''https:'' ''a.com'' ''/page'' ''''),
      (''https://a.com/logo.png'', mkUrl ''https:'' ''a.com'' ''/logo.png'' ''''),
      (''https://a.com/logo.png?size=2'', mkUrl ''https:'' ''a.com'' ''/logo.png'' ''?size=2''),
      (''https://i.pximg.net/img.png'', mkUrl ''https:'' ''i.pximg.net'' ''/img.png'' ''''),
      (''https://b.org/'', mkUrl ''https:'' ''b.org'' ''/'' ''''),
      (''http://constructor/'', mkUrl ''http:'' ''constructor'' ''/'' '''')]"

definition exampleResolutions :: "((string \<times> string) \<times> url) list" where
  "exampleResolutions =
     [((''/login'', ''https://a.com/x''), mkUrl ''https:'' ''a.com'' ''/login'' ''''),
      (('''', ''https://a.com/empty''), mkUrl ''https:'' ''a.com'' ''/empty'' '''')]"

definition exampleOrigins :: "(string \<times> string response) list" where
  "exampleOrigins =
     [(''https://a.com/x'',
       \<lparr>res_status = 302, res_statusText = ''Found'',
        res_headers = [(''Location'', ''/login''), (''Set-Cookie'', ''sid=1''),
                       (''Set-Cookie'', ''t=2; Domain=a.com; Path=/app'')],
        res_body = Null, res_url = ''https://a.com/x''\<rparr>),
      (''https://a.com/empty'',
       \<lparr>res_status = 302, res_statusText = ''Found'',
        res_headers = [(''Location'', '''')],
        res_body = Null, res_url = ''https://a.com/empty''\<rparr>),
      (''https://a.com/bad'',
       \<lparr>res_status = 302, res_statusText = ''Found'',
        res_headers = [(''Location'', ''http://[''), (''Set-Cookie'', ''sid=1'')],
        res_body = Null, res_url = ''https://a.com/bad''\<rparr>),
      (''https://a.com/page'',
       \<lparr>res_status = 200, res_statusText = ''OK'',
        res_headers = [(''Content-Type'', ''text/html; charset=utf-8''), (''Set-Cookie'', ''sid=1''),
                       (''Set-Cookie'', ''t=2; Domain=a.com; Path=/app'')],
        res_body = Stream ''<a href=\"/x\">x</a><img src=\"//cdn.example.com/lib.js\">'',
        res_url = ''https://a.com/page''\<rparr>),
      (''https://a.com/logo.png?size=2'',
       \<lparr>res_status = 200, res_statusText = ''OK'',
        res_headers = [(''Content-Type'', ''image/png'')],
        res_body = Stream ''PNG'', res_url = ''https://a.com/logo.png?size=2''\<rparr>)]"

definition exampleEnvironment :: "string environment" where
  "exampleEnvironment =
     \<lparr>newURL = (\<lambda>s. case map_of exampleURLs s of
                         None \<Rightarrow> Inl (JsError ''Invalid URL string.'')
                       | Some u \<Rightarrow> Inr u),
      newURLWithBase = (\<lambda>s b. case map_of exampleResolutions (s, b) of
                                 None \<Rightarrow> Inl (JsError ''Invalid URL string.'')
                               | Some u \<Rightarrow> Inr u),
      fetch = (\<lambda>r. case map_of exampleOrigins (href (req_url r)) of
                      None \<Rightarrow> Inl (JsError ''Network connection lost.'')
                    | Some response \<Rightarrow> Inr response),
      readText = (\<lambda>st. Inr st)\<rparr>"

text \<open>A request of the client for the path \<open>p\<close> and the query \<open>q\<close> of the proxy.\<close>

definition exampleRequest :: "string \<Rightarrow> string \<Rightarrow> string request" where
  "exampleRequest p q =
     \<lparr>req_url = mkUrl ''https:'' ''proxy.example'' p q, req_method = ''GET'',
      req_headers = [(''Referer'', ''https://proxy.example/''), (''Origin'', ''https://proxy.example''),
                     (''CF-Connecting-IP'', ''203.0.113.7''), (''Accept'', ''*/*'')],
      req_body = Null, req_redirect = ''follow''\<rparr>"

section \<open>Header lists\<close>

lemma getAll_delete:
  "headers_getAll name (headers_delete name' hs) =
     (if sameName name name' then [] else headers_getAll name hs)"
  by (induction hs) (auto simp: headers_getAll_def headers_delete_def sameName_def)

lemma delete_delete_same:
  "headers_delete name (headers_delete name hs) = headers_delete name hs"
  by (simp add: headers_delete_def)

lemma getAll_setFirst:
  "headers_getAll name (setFirst name' v hs) =
     (if sameName name name' then (if headers_getAll name' hs = [] then [] else [v])
      else headers_getAll name hs)"
proof (induction hs)
  case Nil
  then show ?case by (simp add: headers_getAll_def)
next
  case (Cons h hs)
  have d: "headers_getAll name (headers_delete name' hs) =
     (if sameName name name' then [] else headers_getAll name hs)"
    by (rule getAll_delete)
  show ?case using Cons d
    by (auto simp: headers_getAll_def sameName_def)
qed

lemma getAll_append:
  "headers_getAll name (headers_append name' v hs) =
     headers_getAll name hs @ (if sameName name' name then [v] else [])"
  by (simp add: headers_getAll_def headers_append_def)

lemma sameName_sym: "sameName a b = sameName b a"
  by (auto simp: sameName_def)

lemma getAll_set:
  "headers_getAll name (headers_set name' v hs) =
     (if sameName name name' then [v] else headers_getAll name hs)"
proof (cases "headers_getAll name' hs = []")
  case True
  then show ?thesis
    by (auto simp: headers_set_def getAll_append sameName_sym) (auto simp: headers_getAll_def sameName_def)
next
  case False
  then show ?thesis by (simp add: headers_set_def getAll_setFirst)
qed

lemma get_set_same: "headers_get name (headers_set name v hs) = Some v"
  by (simp add: headers_get_def getAll_set sameName_def)

lemma get_set_other:
  "\<not> sameName name name' \<Longrightarrow> headers_get name (headers_set name' v hs) = headers_get name hs"
  by (simp add: headers_get_def getAll_set)

lemma delete_setFirst:
  "headers_delete name (setFirst name v hs) = headers_delete name hs"
  by (induction hs) (auto simp: headers_delete_def)

lemma delete_set:
  "headers_delete name (headers_set name v hs) = headers_delete name hs"
proof (cases "headers_getAll name hs = []")
  case True
  then show ?thesis
    by (simp add: headers_set_def headers_append_def headers_delete_def sameName_def)
next
  case False
  then show ?thesis by (simp add: headers_set_def delete_setFirst)
qed

lemma get_delete_same: "headers_get name (headers_delete name hs) = None"
  by (simp add: headers_get_def getAll_delete sameName_def)

section \<open>Matching and replacing in HTML\<close>

lemma startsWith_split: "startsWith s p \<Longrightarrow> s = p @ drop (length p) s"
  unfolding startsWith_def by (metis append_take_drop_id)

lemma startsWith_prefix: "startsWith (p @ r) p"
  by (simp add: startsWith_def)

lemma find_attribute:
  assumes "a \<in> set attributeNames"
  shows "find (\<lambda>n. startsWith (a @ ''='' @ r) (n @ ''='')) attributeNames = Some a"
  using assms by (auto simp: attributeNames_def startsWith_def)

lemma matchAttribute_Some:
  assumes "matchAttribute s = Some (p1, p2, rest)"
  shows "p2 \<in> set attributeNames \<and> (\<exists>q. (q = CHR 0x22 \<or> q = CHR 0x27) \<and> p1 = p2 @ ''='' @ [q])
       \<and> s = p1 @ rest"
proof -
  obtain a where f: "find (\<lambda>n. startsWith s (n @ ''='')) attributeNames = Some a"
    using assms by (auto simp: matchAttribute_def split: option.splits)
  have m: "a \<in> set attributeNames" and w: "startsWith s (a @ ''='')"
    using f by (auto simp: find_Some_iff)
  have s: "s = (a @ ''='') @ drop (length a + 1) s"
    using startsWith_split [OF w] by simp
  have c: "(case drop (length a + 1) s of
             [] \<Rightarrow> None
           | q # rest \<Rightarrow>
               if q = CHR 0x22 \<or> q = CHR 0x27 then Some (a @ ''='' @ [q], a, rest) else None)
         = Some (p1, p2, rest)"
    using assms unfolding matchAttribute_def f by simp
  have "\<exists>q. drop (length a + 1) s = q # rest \<and> (q = CHR 0x22 \<or> q = CHR 0x27)
           \<and> p1 = a @ ''='' @ [q] \<and> p2 = a"
  proof (cases "drop (length a + 1) s")
    case Nil
    then show ?thesis using c by simp
  next
    case (Cons x xs)
    have x: "x = CHR 0x22 \<or> x = CHR 0x27"
      using c unfolding Cons by (simp split: if_splits)
    have "Some (a @ ''='' @ [x], a, xs) = Some (p1, p2, rest)"
      using c x unfolding Cons by (simp only: list.case if_True)
    then have "p1 = a @ ''='' @ [x]" "p2 = a" "xs = rest"
      by auto
    then show ?thesis using Cons x by blast
  qed
  then obtain q where d: "drop (length a + 1) s = q # rest" and q: "q = CHR 0x22 \<or> q = CHR 0x27"
    and p: "p1 = a @ ''='' @ [q]" "p2 = a"
    by blast
  show ?thesis using m s d q p by auto
qed

lemma matchAttribute_at:
  assumes "a \<in> set attributeNames" and "q = CHR 0x22 \<or> q = CHR 0x27"
  shows "matchAttribute (a @ ''='' @ q # rest) = Some (a @ ''='' @ [q], a, rest)"
  using assms find_attribute [OF assms(1), of "q # rest"]
  by (auto simp: matchAttribute_def)


lemma hd_suffix_in_tl: "p = u @ w \<Longrightarrow> u \<noteq> [] \<Longrightarrow> w \<noteq> [] \<Longrightarrow> hd w \<in> set (tl p)"
  by (cases u) auto

lemma attribute_tail_chars:
  assumes "a \<in> set attributeNames" and "q = CHR 0x22 \<or> q = CHR 0x27"
  shows "set (tl (a @ ''='' @ [q])) \<inter> set ''hsa'' = {}"
proof -
  have "a = ''href'' \<or> a = ''src'' \<or> a = ''action''"
    using assms(1) by (simp add: attributeNames_def)
  then show ?thesis using assms(2) by auto
qed

lemma matchAttribute_append:
  assumes "u \<noteq> []" and "t \<noteq> []" and "hd t \<in> set ''hsa''"
  shows "matchAttribute (u @ t) =
           map_option (\<lambda>(p1, p2, rest). (p1, p2, rest @ t)) (matchAttribute u)"
proof (cases "matchAttribute u")
  case (Some x)
  obtain p1 p2 rest where x: "x = (p1, p2, rest)"
    by (cases x) auto
  obtain q where a: "p2 \<in> set attributeNames" and q: "q = CHR 0x22 \<or> q = CHR 0x27"
    and p: "p1 = p2 @ ''='' @ [q]" and u: "u = p1 @ rest"
    using matchAttribute_Some [OF Some [unfolded x]] by blast
  have "matchAttribute (p2 @ ''='' @ q # (rest @ t)) = Some (p2 @ ''='' @ [q], p2, rest @ t)"
    by (rule matchAttribute_at [OF a q])
  then have "matchAttribute (u @ t) = Some (p1, p2, rest @ t)"
    by (simp add: u p)
  then show ?thesis
    by (simp add: Some x)
next
  case None
  have "matchAttribute (u @ t) = None"
  proof (rule ccontr)
    assume "matchAttribute (u @ t) \<noteq> None"
    then obtain p1 p2 rest where s: "matchAttribute (u @ t) = Some (p1, p2, rest)"
      by (cases "matchAttribute (u @ t)") auto
    obtain q where a: "p2 \<in> set attributeNames" and q: "q = CHR 0x22 \<or> q = CHR 0x27"
      and p: "p1 = p2 @ ''='' @ [q]" and e: "u @ t = p1 @ rest"
      using matchAttribute_Some [OF s] by blast
    have "(\<exists>w. u = p1 @ w) \<or> (\<exists>w. w \<noteq> [] \<and> p1 = u @ w \<and> t = w @ rest)"
    proof -
      from e obtain us where d: "u = p1 @ us \<and> us @ t = rest \<or> u @ us = p1 \<and> t = us @ rest"
        by (auto simp: append_eq_append_conv2)
      show ?thesis
      proof (cases "us = []")
        case True
        with d have "u = p1 @ []" by auto
        then show ?thesis by blast
      next
        case False
        with d show ?thesis by auto
      qed
    qed
    then consider w where "u = p1 @ w" | w where "w \<noteq> []" "p1 = u @ w" "t = w @ rest"
      by blast
    then show False
    proof cases
      case 1
      have "matchAttribute (p2 @ ''='' @ q # w) = Some (p2 @ ''='' @ [q], p2, w)"
        by (rule matchAttribute_at [OF a q])
      then show False using None by (simp add: 1 p)
    next
      case 2
      have i: "hd t \<in> set (tl p1)"
        using hd_suffix_in_tl [OF 2(2) assms(1) 2(1)] 2(1,3) by simp
      have j: "set (tl p1) \<inter> set ''hsa'' = {}"
        using attribute_tail_chars [OF a q] by (simp only: p)
      show False
        using IntI [OF i assms(3)] j by (simp only: empty_iff)
    qed
  qed
  then show ?thesis by (simp add: None)
qed

lemma matchRootRelative_Some:
  assumes "matchRootRelative enc s = Some (n, r)"
  shows "\<exists>a q rest. a \<in> set attributeNames \<and> (q = CHR 0x22 \<or> q = CHR 0x27)
           \<and> s = a @ ''='' @ [q] @ ''/'' @ rest \<and> \<not> startsWith rest ''/''
           \<and> n = length a + 3 \<and> r = a @ ''='' @ [q] @ ''/'' @ enc @ ''/''"
proof (cases "matchAttribute s")
  case None
  then show ?thesis using assms by (simp add: matchRootRelative_def)
next
  case (Some x)
  obtain p1 p2 rest where x: "x = (p1, p2, rest)"
    by (cases x) auto
  obtain q where a: "p2 \<in> set attributeNames" and q: "q = CHR 0x22 \<or> q = CHR 0x27"
    and p: "p1 = p2 @ ''='' @ [q]" and s: "s = p1 @ rest"
    using matchAttribute_Some [OF Some [unfolded x]] by blast
  show ?thesis
  proof (cases rest)
    case Nil
    then show ?thesis using assms by (simp add: matchRootRelative_def Some x)
  next
    case (Cons c rest')
    have f: "c = CHR ''/'' \<and> \<not> startsWith rest' ''/''
             \<and> n = length p1 + 1 \<and> r = p1 @ ''/'' @ enc @ ''/''"
      using assms by (auto simp: matchRootRelative_def Some x Cons split: if_splits)
    have e1: "s = p2 @ ''='' @ [q] @ ''/'' @ rest'"
      using f by (simp add: s p Cons)
    have e2: "n = length p2 + 3"
      using f by (simp add: p)
    have e3: "r = p2 @ ''='' @ [q] @ ''/'' @ enc @ ''/''"
      using f by (simp add: p)
    have e4: "\<not> startsWith rest' ''/''"
      using f by simp
    show ?thesis
      using a q e1 e2 e3 e4 by blast
  qed
qed

lemma matchRootRelative_at:
  assumes "a \<in> set attributeNames" and "q = CHR 0x22 \<or> q = CHR 0x27"
    and "\<not> startsWith rest ''/''"
  shows "matchRootRelative enc (a @ ''='' @ q # CHR ''/'' # rest)
           = Some (length a + 3, a @ ''='' @ [q] @ ''/'' @ enc @ ''/'')"
  using assms(3) matchAttribute_at [OF assms(1,2), of "CHR ''/'' # rest"]
  by (simp add: matchRootRelative_def)

lemma matchRootRelative_append:
  assumes "u \<noteq> []" and "t \<noteq> []" and "hd t \<in> set ''hsa''"
  shows "matchRootRelative enc (u @ t) = matchRootRelative enc u"
proof (cases "matchAttribute u")
  case None
  then show ?thesis
    by (simp add: matchRootRelative_def matchAttribute_append [OF assms])
next
  case (Some x)
  obtain p1 p2 rest where x: "x = (p1, p2, rest)"
    by (cases x) auto
  have n: "hd t \<noteq> CHR ''/''"
    using assms(3) by auto
  obtain d ds where t: "t = d # ds" and d: "d \<noteq> CHR ''/''"
    using assms(2) n by (cases t) auto
  have ma: "matchAttribute (u @ t) = Some (p1, p2, rest @ t)"
    by (simp add: matchAttribute_append [OF assms] Some x)
  show ?thesis
  proof (cases rest)
    case Nil
    have "matchRootRelative enc (u @ t) = None"
      unfolding matchRootRelative_def ma using d by (simp add: Nil t)
    moreover have "matchRootRelative enc u = None"
      unfolding matchRootRelative_def Some x by (simp add: Nil)
    ultimately show ?thesis by simp
  next
    case (Cons c rest')
    have w: "startsWith (rest' @ t) ''/'' = startsWith rest' ''/''"
      using d by (cases rest') (auto simp: startsWith_def t)
    show ?thesis
      unfolding matchRootRelative_def ma Some x by (simp add: Cons w)
  qed
qed

lemma replaceAll_append:
  assumes "\<And>a c b. pre = a @ c # b \<Longrightarrow>
             m (c # b @ t) = m (c # b) \<and> (\<forall>n r. m (c # b) = Some (n, r) \<longrightarrow> n \<le> length (c # b))"
  shows "replaceAll m (pre @ t) = replaceAll m pre @ replaceAll m t"
  using assms
proof (induction m pre rule: replaceAll.induct)
  case (1 m)
  then show ?case by simp
next
  case (2 m c cs)
  have h: "m (c # cs @ t) = m (c # cs)"
    and f: "\<And>n r. m (c # cs) = Some (n, r) \<Longrightarrow> n \<le> length (c # cs)"
    using "2.prems" [of "[]" c cs] by auto
  show ?case
  proof (cases "m (c # cs)")
    case None
    have "replaceAll m (cs @ t) = replaceAll m cs @ replaceAll m t"
    proof (rule "2.IH"(1) [OF None])
      fix a c' b
      assume "cs = a @ c' # b"
      then have "c # cs = (c # a) @ c' # b" by simp
      then show "m (c' # b @ t) = m (c' # b)
           \<and> (\<forall>n r. m (c' # b) = Some (n, r) \<longrightarrow> n \<le> length (c' # b))"
        by (rule "2.prems")
    qed
    then show ?thesis using None h by simp
  next
    case (Some x)
    obtain n r where x: "x = (n, r)"
      by (cases x) auto
    have le: "n - 1 \<le> length cs"
      using f [OF Some [unfolded x]] by simp
    have "replaceAll m (drop (n - 1) cs @ t) = replaceAll m (drop (n - 1) cs) @ replaceAll m t"
    proof (rule "2.IH"(2) [OF Some x [symmetric]])
      fix a c' b
      assume "drop (n - 1) cs = a @ c' # b"
      then have "c # cs = (c # take (n - 1) cs @ a) @ c' # b"
        by (metis append_Cons append_assoc append_take_drop_id)
      then show "m (c' # b @ t) = m (c' # b)
           \<and> (\<forall>n r. m (c' # b) = Some (n, r) \<longrightarrow> n \<le> length (c' # b))"
        by (rule "2.prems")
    qed
    then show ?thesis using Some x h le by simp
  qed
qed


lemma matchRootRelative_fit:
  assumes "matchRootRelative enc s = Some (n, r)"
  shows "n \<le> length s"
proof -
  obtain a q rest where s: "s = a @ ''='' @ [q] @ ''/'' @ rest" and n: "n = length a + 3"
    using matchRootRelative_Some [OF assms] by blast
  have "length s = length a + 3 + length rest"
    by (simp add: s)
  then show ?thesis using n by simp
qed

lemma replaceAll_match:
  assumes "s \<noteq> []" and "m s = Some (n, r)" and "1 \<le> n"
  shows "replaceAll m s = r @ replaceAll m (drop n s)"
proof -
  obtain c cs where s: "s = c # cs"
    using assms(1) by (cases s) auto
  have "drop (n - 1) cs = drop n (c # cs)"
    using assms(3) by (simp add: drop_Cons')
  then show ?thesis
    using assms(2) by (simp add: s)
qed

lemma replaceAll_none:
  assumes "\<And>a c b. t = a @ c # b \<Longrightarrow> m (c # b) = None"
  shows "replaceAll m t = t"
  using assms
proof (induction t)
  case Nil
  then show ?case by simp
next
  case (Cons c cs)
  have "m (c # cs) = None"
    using Cons.prems [of "[]" c cs] by simp
  moreover have "replaceAll m cs = cs"
  proof (rule Cons.IH)
    fix a c' b
    assume "cs = a @ c' # b"
    then have "c # cs = (c # a) @ c' # b" by simp
    then show "m (c' # b) = None" by (rule Cons.prems)
  qed
  ultimately show ?case by simp
qed

lemma rewriteRootRelative_occurrence:
  assumes "a \<in> set attributeNames" and "q = CHR 0x22 \<or> q = CHR 0x27"
    and "\<not> startsWith rest ''/''"
  shows "rewriteRootRelative enc (pre @ a @ ''='' @ [q] @ ''/'' @ rest)
       = rewriteRootRelative enc pre @ a @ ''='' @ [q] @ ''/'' @ enc @ ''/''
           @ rewriteRootRelative enc rest"
proof -
  let ?t = "a @ ''='' @ q # CHR ''/'' # rest"
  let ?m = "matchRootRelative enc"
  have "a = ''href'' \<or> a = ''src'' \<or> a = ''action''"
    using assms(1) by (simp add: attributeNames_def)
  then have t: "?t \<noteq> []" "hd ?t \<in> set ''hsa''"
    by auto
  have l: "replaceAll ?m (pre @ ?t) = replaceAll ?m pre @ replaceAll ?m ?t"
  proof (rule replaceAll_append)
    fix x c b
    assume "pre = x @ c # b"
    have "?m ((c # b) @ ?t) = ?m (c # b)"
      by (rule matchRootRelative_append [OF _ t]) simp
    moreover have "n \<le> length (c # b)" if "?m (c # b) = Some (n, r)" for n r
      by (rule matchRootRelative_fit [OF that])
    ultimately show "?m (c # b @ ?t) = ?m (c # b)
        \<and> (\<forall>n r. ?m (c # b) = Some (n, r) \<longrightarrow> n \<le> length (c # b))"
      by simp
  qed
  have "replaceAll ?m ?t = (a @ ''='' @ [q] @ ''/'' @ enc @ ''/'') @ replaceAll ?m (drop (length a + 3) ?t)"
    by (rule replaceAll_match [of ?t ?m, OF t(1) matchRootRelative_at [OF assms, of enc]]) simp
  then have "replaceAll ?m ?t = a @ ''='' @ [q] @ ''/'' @ enc @ ''/'' @ replaceAll ?m rest"
    by simp
  then show ?thesis
    using l by (simp add: rewriteRootRelative_def)
qed

lemma rewriteRootRelative_unchanged:
  assumes "\<And>pre a q rest. a \<in> set attributeNames \<Longrightarrow> q = CHR 0x22 \<or> q = CHR 0x27 \<Longrightarrow>
             \<not> startsWith rest ''/'' \<Longrightarrow> t \<noteq> pre @ a @ ''='' @ [q] @ ''/'' @ rest"
  shows "rewriteRootRelative enc t = t"
  unfolding rewriteRootRelative_def
proof (rule replaceAll_none)
  fix x c b
  assume t: "t = x @ c # b"
  show "matchRootRelative enc (c # b) = None"
  proof (rule ccontr)
    assume "matchRootRelative enc (c # b) \<noteq> None"
    then obtain n r where "matchRootRelative enc (c # b) = Some (n, r)"
      by (cases "matchRootRelative enc (c # b)") auto
    from matchRootRelative_Some [OF this]
    obtain a q rest where "a \<in> set attributeNames" "q = CHR 0x22 \<or> q = CHR 0x27"
      "c # b = a @ ''='' @ [q] @ ''/'' @ rest" "\<not> startsWith rest ''/''"
      by blast
    then show False
      using assms [of a q rest x] t by simp
  qed
qed


lemma startsWith_slashes: "startsWith s ''//'' \<Longrightarrow> s = ''//'' @ drop 2 s"
proof -
  assume "startsWith s ''//''"
  then have "take 2 s = ''//''"
    by (simp add: startsWith_def numeral_2_eq_2)
  then show ?thesis
    using append_take_drop_id [of 2 s] by simp
qed

lemma drop_prefix: "length xs = n \<Longrightarrow> drop n (xs @ ys) = ys"
  by simp

lemma takeWhile_stop: "rest = [] \<or> \<not> P (hd rest) \<Longrightarrow> takeWhile P rest = []"
  by (cases rest) auto

lemma matchProtocolRelative_Some:
  assumes "matchProtocolRelative s = Some (n, r)"
  shows "\<exists>a q h rest. a \<in> set attributeNames \<and> (q = CHR 0x22 \<or> q = CHR 0x27)
           \<and> s = a @ ''='' @ [q] @ ''//'' @ h @ rest \<and> h \<noteq> [] \<and> (\<forall>c\<in>set h. hostChar c)
           \<and> (rest = [] \<or> \<not> hostChar (hd rest))
           \<and> n = length a + 4 + length h
           \<and> r = a @ ''='' @ [q] @ ''/'' @ encodeURIComponent (''https://'' @ a)"
proof (cases "matchAttribute s")
  case None
  then show ?thesis using assms by (simp add: matchProtocolRelative_def)
next
  case (Some x)
  obtain p1 p2 rest0 where x: "x = (p1, p2, rest0)"
    by (cases x) auto
  obtain q where a: "p2 \<in> set attributeNames" and q: "q = CHR 0x22 \<or> q = CHR 0x27"
    and p: "p1 = p2 @ ''='' @ [q]" and s: "s = p1 @ rest0"
    using matchAttribute_Some [OF Some [unfolded x]] by blast
  let ?h = "takeWhile hostChar (drop 2 rest0)"
  let ?rest = "dropWhile hostChar (drop 2 rest0)"
  have f: "startsWith rest0 ''//'' \<and> ?h \<noteq> [] \<and> n = length p1 + 2 + length ?h
             \<and> r = p1 @ ''/'' @ encodeURIComponent (''https://'' @ p2)"
    using assms by (auto simp: matchProtocolRelative_def Some x split: if_splits)
  have "rest0 = ''//'' @ drop 2 rest0"
    using startsWith_slashes [of rest0] f by blast
  then have "rest0 = ''//'' @ ?h @ ?rest"
    by simp
  then have e1: "s = p2 @ ''='' @ [q] @ ''//'' @ ?h @ ?rest"
    using s p by simp
  have e2: "\<forall>c\<in>set ?h. hostChar c"
    by (auto dest: set_takeWhileD)
  have e3: "?rest = [] \<or> \<not> hostChar (hd ?rest)"
    using hd_dropWhile [of hostChar "drop 2 rest0"] by blast
  have e4: "n = length p2 + 4 + length ?h"
    using f by (simp add: p)
  have e5: "r = p2 @ ''='' @ [q] @ ''/'' @ encodeURIComponent (''https://'' @ p2)"
    using f by (simp add: p)
  have e6: "?h \<noteq> []"
    using f by simp
  show ?thesis
    using a q e1 e2 e3 e4 e5 e6 by blast
qed

lemma matchProtocolRelative_at:
  assumes "a \<in> set attributeNames" and "q = CHR 0x22 \<or> q = CHR 0x27"
    and "h \<noteq> []" and "\<forall>c\<in>set h. hostChar c" and "rest = [] \<or> \<not> hostChar (hd rest)"
  shows "matchProtocolRelative (a @ ''='' @ q # CHR ''/'' # CHR ''/'' # h @ rest)
           = Some (length a + 4 + length h,
                   a @ ''='' @ [q] @ ''/'' @ encodeURIComponent (''https://'' @ a))"
proof -
  have t: "takeWhile hostChar (h @ rest) = h"
    using assms(4) takeWhile_stop [of rest hostChar, OF assms(5)] by (simp add: takeWhile_append2)
  show ?thesis
    using assms(3) matchAttribute_at [OF assms(1,2), of "CHR ''/'' # CHR ''/'' # h @ rest"]
    by (simp add: matchProtocolRelative_def startsWith_def t)
qed

lemma matchProtocolRelative_fit:
  assumes "matchProtocolRelative s = Some (n, r)"
  shows "n \<le> length s"
proof -
  obtain a q h rest where s: "s = a @ ''='' @ [q] @ ''//'' @ h @ rest"
    and n: "n = length a + 4 + length h"
    using matchProtocolRelative_Some [OF assms] by blast
  have "length s = length a + 4 + length h + length rest"
    by (simp add: s)
  then show ?thesis using n by simp
qed

text \<open>The text does not end inside a host: after its last \<^verbatim>\<open>//\<close> comes a delimiter.\<close>

lemma matchProtocolRelative_append:
  assumes "u \<noteq> []" and "t \<noteq> []" and "hd t \<in> set ''hsa''"
    and "\<not> (\<exists>x v. u = x @ ''//'' @ v \<and> (\<forall>c\<in>set v. hostChar c))"
  shows "matchProtocolRelative (u @ t) = matchProtocolRelative u"
proof (cases "matchAttribute u")
  case None
  then show ?thesis
    by (simp add: matchProtocolRelative_def matchAttribute_append [OF assms(1-3)])
next
  case (Some x)
  obtain p1 p2 rest where x: "x = (p1, p2, rest)"
    by (cases x) auto
  obtain d ds where t: "t = d # ds" and d: "d \<noteq> CHR ''/''"
    using assms(2,3) by (cases t) auto
  have ma: "matchAttribute (u @ t) = Some (p1, p2, rest @ t)"
    by (simp add: matchAttribute_append [OF assms(1-3)] Some x)
  have u: "u = p1 @ rest"
    using matchAttribute_Some [OF Some [unfolded x]] by blast
  show ?thesis
  proof (cases "startsWith rest ''//''")
    case True
    then have r: "rest = ''//'' @ drop 2 rest"
      by (rule startsWith_slashes)
    then have "u = p1 @ ''//'' @ drop 2 rest"
      using u by simp
    then have "\<not> (\<forall>c\<in>set (drop 2 rest). hostChar c)"
      using assms(4) by blast
    then obtain c where "c \<in> set (drop 2 rest)" "\<not> hostChar c"
      by blast
    then have w: "takeWhile hostChar (drop 2 rest @ t) = takeWhile hostChar (drop 2 rest)"
      by (rule takeWhile_append1)
    have l: "2 \<le> length rest"
      using r by (metis length_append length_Cons list.size(3) le_add1 numeral_2_eq_2)
    have s: "startsWith (rest @ t) ''//''"
      using True l by (simp add: startsWith_def)
    show ?thesis
      unfolding matchProtocolRelative_def ma Some x using True s w l by simp
  next
    case False
    have "\<not> startsWith (rest @ t) ''//''"
    proof (cases rest)
      case Nil
      then show ?thesis using d by (simp add: startsWith_def t)
    next
      case (Cons y ys)
      then show ?thesis using False d by (cases ys) (auto simp: startsWith_def t)
    qed
    then show ?thesis
      unfolding matchProtocolRelative_def ma Some x using False by simp
  qed
qed

lemma rewriteProtocolRelative_occurrence:
  assumes "a \<in> set attributeNames" and "q = CHR 0x22 \<or> q = CHR 0x27"
    and "h \<noteq> []" and "\<forall>c\<in>set h. hostChar c" and "rest = [] \<or> \<not> hostChar (hd rest)"
    and "\<not> (\<exists>x v. pre = x @ ''//'' @ v \<and> (\<forall>c\<in>set v. hostChar c))"
  shows "rewriteProtocolRelative (pre @ a @ ''='' @ [q] @ ''//'' @ h @ rest)
       = rewriteProtocolRelative pre @ a @ ''='' @ [q] @ ''/''
           @ encodeURIComponent (''https://'' @ a) @ rewriteProtocolRelative rest"
proof -
  let ?t = "a @ ''='' @ q # CHR ''/'' # CHR ''/'' # h @ rest"
  let ?m = "matchProtocolRelative"
  have "a = ''href'' \<or> a = ''src'' \<or> a = ''action''"
    using assms(1) by (simp add: attributeNames_def)
  then have t: "?t \<noteq> []" "hd ?t \<in> set ''hsa''"
    by auto
  have l: "replaceAll ?m (pre @ ?t) = replaceAll ?m pre @ replaceAll ?m ?t"
  proof (rule replaceAll_append)
    fix x c b
    assume pre: "pre = x @ c # b"
    have "\<not> (\<exists>y v. c # b = y @ ''//'' @ v \<and> (\<forall>c\<in>set v. hostChar c))"
    proof
      assume "\<exists>y v. c # b = y @ ''//'' @ v \<and> (\<forall>c\<in>set v. hostChar c)"
      then obtain y v where "c # b = y @ ''//'' @ v" "\<forall>c\<in>set v. hostChar c"
        by blast
      then have "pre = (x @ y) @ ''//'' @ v \<and> (\<forall>c\<in>set v. hostChar c)"
        using pre by simp
      then show False using assms(6) by blast
    qed
    then have "?m ((c # b) @ ?t) = ?m (c # b)"
      by (intro matchProtocolRelative_append t) simp_all
    moreover have "n \<le> length (c # b)" if "?m (c # b) = Some (n, r)" for n r
      by (rule matchProtocolRelative_fit [OF that])
    ultimately show "?m (c # b @ ?t) = ?m (c # b)
        \<and> (\<forall>n r. ?m (c # b) = Some (n, r) \<longrightarrow> n \<le> length (c # b))"
      by simp
  qed
  have "replaceAll ?m ?t = (a @ ''='' @ [q] @ ''/'' @ encodeURIComponent (''https://'' @ a))
          @ replaceAll ?m (drop (length a + 4 + length h) ?t)"
    by (rule replaceAll_match [of ?t ?m, OF t(1) matchProtocolRelative_at [OF assms(1-5)]]) simp
  moreover have "drop (length a + 4 + length h) ?t = rest"
  proof -
    have "?t = (a @ ''='' @ q # CHR ''/'' # CHR ''/'' # h) @ rest"
      by simp
    moreover have "length (a @ ''='' @ q # CHR ''/'' # CHR ''/'' # h) = length a + 4 + length h"
      by simp
    ultimately show ?thesis
      by (simp only: drop_prefix)
  qed
  ultimately have "replaceAll ?m ?t = a @ ''='' @ [q] @ ''/'' @ encodeURIComponent (''https://'' @ a)
          @ replaceAll ?m rest"
    by (simp only: append_assoc)
  then show ?thesis
    using l by (simp add: rewriteProtocolRelative_def)
qed

section \<open>Searching without regard to case\<close>

lemma of_char_less: "(of_char c :: nat) < 256"
  by (metis of_char_mod_256 mod_less_divisor zero_less_numeral)

lemma toLowerCase_char_nat:
  "(of_char (toLowerCase_char c) :: nat) =
     (if (65 \<le> (of_char c :: nat) \<and> (of_char c :: nat) \<le> 90)
         \<or> (192 \<le> (of_char c :: nat) \<and> (of_char c :: nat) \<le> 222 \<and> (of_char c :: nat) \<noteq> 215)
      then of_char c + 32 else of_char c)"
  by (simp add: toLowerCase_char_def Let_def of_char_of)

lemma canonicalize_nat:
  "(of_char (canonicalize c) :: nat) =
     (if (97 \<le> (of_char c :: nat) \<and> (of_char c :: nat) \<le> 122)
         \<or> (224 \<le> (of_char c :: nat) \<and> (of_char c :: nat) \<le> 254 \<and> (of_char c :: nat) \<noteq> 247)
      then of_char c - 32 else of_char c)"
proof -
  have "(of_char c :: nat) - 32 < 256"
    using of_char_less [of c] by arith
  then have "((of_char c :: nat) - 32) mod 256 = of_char c - 32"
    by (rule mod_less)
  then show ?thesis
    by (simp add: canonicalize_def Let_def of_char_of)
qed

lemma lower_canon_arith:
  fixes n k :: nat
  assumes "n < 256" and "(97 \<le> k \<and> k \<le> 122) \<or> k < 65"
  shows "((if (65 \<le> n \<and> n \<le> 90) \<or> (192 \<le> n \<and> n \<le> 222 \<and> n \<noteq> 215) then n + 32 else n) = k)
       = ((if (97 \<le> n \<and> n \<le> 122) \<or> (224 \<le> n \<and> n \<le> 254 \<and> n \<noteq> 247) then n - 32 else n)
          = (if (97 \<le> k \<and> k \<le> 122) \<or> (224 \<le> k \<and> k \<le> 254 \<and> k \<noteq> 247) then k - 32 else k))"
proof -
  consider "n < 65" | "65 \<le> n \<and> n \<le> 90" | "90 < n \<and> n < 97" | "97 \<le> n \<and> n \<le> 122"
    | "122 < n \<and> n < 192" | "192 \<le> n \<and> n \<le> 222" | "222 < n"
    by linarith
  then show ?thesis
  proof cases
    case 1 then show ?thesis using assms(2) by auto
  next
    case 2 then show ?thesis using assms(2) by auto
  next
    case 3 then show ?thesis using assms(2) by auto
  next
    case 4 then show ?thesis using assms(2) by auto
  next
    case 5 then show ?thesis using assms(2) by auto
  next
    case 6 then show ?thesis using assms(2) by auto
  next
    case 7 then show ?thesis using assms by auto
  qed
qed

lemma ci_char:
  assumes "(97 \<le> (of_char p :: nat) \<and> (of_char p :: nat) \<le> 122) \<or> (of_char p :: nat) < 65"
  shows "(toLowerCase_char c = p) = (canonicalize c = canonicalize p)"
proof -
  have "(toLowerCase_char c = p) = ((of_char (toLowerCase_char c) :: nat) = of_char p)"
    by (simp add: of_char_eq_iff)
  moreover have "(canonicalize c = canonicalize p)
      = ((of_char (canonicalize c) :: nat) = of_char (canonicalize p))"
    by (simp add: of_char_eq_iff)
  moreover have "((of_char (toLowerCase_char c) :: nat) = of_char p)
      = ((of_char (canonicalize c) :: nat) = of_char (canonicalize p))"
    unfolding toLowerCase_char_nat canonicalize_nat
    by (rule lower_canon_arith [OF of_char_less assms])
  ultimately show ?thesis by simp
qed


text \<open>Patterns of lower-case letters and of signs below \<^verbatim>\<open>A\<close>, as \<^verbatim>\<open>domain=\<close> and \<^verbatim>\<open>path=\<close>.\<close>

lemma ci_list:
  assumes "\<forall>p\<in>set pat. (97 \<le> (of_char p :: nat) \<and> (of_char p :: nat) \<le> 122) \<or> (of_char p :: nat) < 65"
  shows "(map toLowerCase_char m = pat) = (map canonicalize m = map canonicalize pat)"
  using assms
proof (induction m arbitrary: pat)
  case Nil
  then show ?case by auto
next
  case (Cons c m)
  show ?case
  proof (cases pat)
    case Nil
    then show ?thesis by simp
  next
    case (Cons p ps)
    have "(toLowerCase_char c = p) = (canonicalize c = canonicalize p)"
      by (rule ci_char) (use Cons.prems Cons in simp)
    moreover have "(map toLowerCase_char m = ps) = (map canonicalize m = map canonicalize ps)"
      by (rule Cons.IH) (use Cons.prems Cons in simp)
    ultimately show ?thesis by (simp add: Cons)
  qed
qed

lemma matchesCI_lower:
  assumes "\<forall>p\<in>set pat. (97 \<le> (of_char p :: nat) \<and> (of_char p :: nat) \<le> 122) \<or> (of_char p :: nat) < 65"
  shows "matchesCI pat s = startsWith (toLowerCase s) pat"
  using ci_list [OF assms, of "take (length pat) s"]
  by (simp add: matchesCI_def startsWith_def toLowerCase_def take_map)

lemma testCI_lower:
  assumes "\<forall>p\<in>set pat. (97 \<le> (of_char p :: nat) \<and> (of_char p :: nat) \<le> 122) \<or> (of_char p :: nat) < 65"
  shows "testCI pat s = includesStr (toLowerCase s) pat"
proof (induction s)
  case Nil
  then show ?case by (simp add: toLowerCase_def)
next
  case (Cons c cs)
  have "includesStr (toLowerCase (c # cs)) pat
      = (startsWith (toLowerCase (c # cs)) pat \<or> includesStr (toLowerCase cs) pat)"
    by (simp add: toLowerCase_def)
  then show ?case
    using Cons matchesCI_lower [OF assms, of "c # cs"] by simp
qed

lemma includesStr_iff: "includesStr s p = (\<exists>a b. s = a @ p @ b)"
proof (induction s)
  case Nil
  then show ?case by auto
next
  case (Cons c cs)
  have w: "startsWith (c # cs) p = (\<exists>b. c # cs = p @ b)"
    unfolding startsWith_def by (metis append_eq_conv_conj append_take_drop_id)
  show ?case
  proof
    assume "includesStr (c # cs) p"
    then consider "startsWith (c # cs) p" | "includesStr cs p"
      by auto
    then show "\<exists>a b. c # cs = a @ p @ b"
    proof cases
      case 1
      then obtain b where "c # cs = [] @ p @ b" using w by auto
      then show ?thesis by blast
    next
      case 2
      then obtain a b where "cs = a @ p @ b" using Cons by blast
      then have "c # cs = (c # a) @ p @ b" by simp
      then show ?thesis by blast
    qed
  next
    assume "\<exists>a b. c # cs = a @ p @ b"
    then obtain a b where e: "c # cs = a @ p @ b" by blast
    show "includesStr (c # cs) p"
    proof (cases a)
      case Nil
      then have "startsWith (c # cs) p" using e w by auto
      then show ?thesis by simp
    next
      case (Cons x xs)
      then have "cs = xs @ p @ b" using e by simp
      then show ?thesis using Cons.IH by auto
    qed
  qed
qed

lemma includesStr_mono: "includesStr s p \<Longrightarrow> includesStr (u @ s @ w) p"
  unfolding includesStr_iff by (metis append_assoc)

lemma includesStr_barrier:
  assumes "k \<notin> set p"
  shows "includesStr (x @ k # y) p = (includesStr x p \<or> includesStr y p)"
proof (induction x)
  case Nil
  have "startsWith (k # y) p = (p = [])"
    using assms by (cases p) (auto simp: startsWith_def)
  then show ?case by (cases y) auto
next
  case (Cons c x)
  have t: "take (length p) (c # x @ k # y)
      = take (length p) (c # x) @ take (length p - length (c # x)) (k # y)"
    using take_append [of "length p" "c # x" "k # y"] by simp
  have "startsWith (c # x @ k # y) p = startsWith (c # x) p"
  proof (cases "length p \<le> length (c # x)")
    case True
    then have "take (length p - length (c # x)) (k # y) = []"
      by simp
    then show ?thesis unfolding startsWith_def t by simp
  next
    case False
    then obtain j where "length p - length (c # x) = Suc j"
      by (cases "length p - length (c # x)") auto
    then have "k \<in> set (take (length p) (c # x @ k # y))"
      unfolding t by simp
    then have "take (length p) (c # x @ k # y) \<noteq> p"
      using assms by auto
    moreover have "take (length p) (c # x) \<noteq> p"
    proof
      assume "take (length p) (c # x) = p"
      then have "length (take (length p) (c # x)) = length p"
        by simp
      then show False using False by simp
    qed
    ultimately show ?thesis by (simp add: startsWith_def)
  qed
  then show ?case using Cons by simp
qed

section \<open>Replacing the Domain attribute\<close>

lemma lower_letters:
  "\<forall>p\<in>set ''domain=''. (97 \<le> (of_char p :: nat) \<and> (of_char p :: nat) \<le> 122) \<or> (of_char p :: nat) < 65"
  "\<forall>p\<in>set ''path=''. (97 \<le> (of_char p :: nat) \<and> (of_char p :: nat) \<le> 122) \<or> (of_char p :: nat) < 65"
  by simp_all

lemma toLowerCase_append: "toLowerCase (a @ b) = toLowerCase a @ toLowerCase b"
  by (simp add: toLowerCase_def)

lemma toLowerCase_literals:
  "toLowerCase ''; Domain='' = ''; domain=''"
  "toLowerCase ''; Path=/'' = ''; path=/''"
  "toLowerCase ''domain='' = ''domain=''"
  "toLowerCase_char CHR '';'' = CHR '';''"
  by code_simp+

lemma toLowerCase_length: "length (toLowerCase s) = length s"
  by (simp add: toLowerCase_def)

text \<open>
  A pattern whose first character does not come again in it: no occurrence starts in
  \<open>x\<close> and runs into a following occurrence.
\<close>

lemma no_overlap:
  assumes "x \<noteq> []" and "\<not> includesStr (a @ x) p" and "p \<noteq> []" and "hd p \<notin> set (tl p)"
  shows "\<not> startsWith (x @ p @ w) p"
proof
  assume "startsWith (x @ p @ w) p"
  then obtain b where "x @ p @ w = p @ b"
    using startsWith_split by blast
  then obtain us where d: "x = p @ us \<and> us @ p @ w = b \<or> x @ us = p \<and> p @ w = us @ b"
    by (auto simp: append_eq_append_conv2)
  show False
  proof (cases "us = [] \<or> x = p @ us")
    case True
    then have "\<exists>u. x = p @ u"
      using d by auto
    then obtain u where "a @ x = a @ p @ u"
      by auto
    then have "includesStr (a @ x) p"
      unfolding includesStr_iff by blast
    then show False using assms(2) by simp
  next
    case False
    then have u: "us \<noteq> []" and e: "p = x @ us" and f: "p @ w = us @ b"
      using d by auto
    have "hd us \<in> set (tl p)"
      by (rule hd_suffix_in_tl [OF e assms(1) u])
    moreover have "hd us = hd p"
      using f u assms(3) by (cases us; cases p) auto
    ultimately show False using assms(4) by simp
  qed
qed

lemma replaceFirst_skip:
  assumes "\<And>a c b. pre = a @ c # b \<Longrightarrow> m (c # b @ t) = None"
  shows "replaceFirst m (pre @ t) = pre @ replaceFirst m t"
  using assms
proof (induction pre)
  case Nil
  then show ?case by simp
next
  case (Cons c pre)
  have "m (c # pre @ t) = None"
    using Cons.prems [of "[]" c pre] by simp
  moreover have "replaceFirst m (pre @ t) = pre @ replaceFirst m t"
  proof (rule Cons.IH)
    fix a c' b
    assume "pre = a @ c' # b"
    then have "c # pre = (c # a) @ c' # b" by simp
    then show "m (c' # b @ t) = None"
      by (rule Cons.prems)
  qed
  ultimately show ?case by simp
qed

lemma replaceFirst_hit:
  assumes "s \<noteq> []" and "m s = Some (n, r)" and "1 \<le> n"
  shows "replaceFirst m s = r @ drop n s"
proof -
  obtain c cs where s: "s = c # cs"
    using assms(1) by (cases s) auto
  have "drop (n - 1) cs = drop n (c # cs)"
    using assms(3) by (simp add: drop_Cons')
  then show ?thesis
    using assms(2) by (simp add: s)
qed

lemma replaceFirst_cases:
  "replaceFirst m s = s
   \<or> (\<exists>pre t n r. s = pre @ t \<and> t \<noteq> [] \<and> m t = Some (n, r)
        \<and> replaceFirst m s = pre @ r @ drop (n - 1) (tl t))"
proof (induction s)
  case Nil
  then show ?case by simp
next
  case (Cons c cs)
  show ?case
  proof (cases "m (c # cs)")
    case None
    from Cons consider "replaceFirst m cs = cs"
      | pre t n r where "cs = pre @ t" "t \<noteq> []" "m t = Some (n, r)"
          "replaceFirst m cs = pre @ r @ drop (n - 1) (tl t)"
      by blast
    then show ?thesis
    proof cases
      case 1
      then show ?thesis using None by simp
    next
      case 2
      then have "c # cs = (c # pre) @ t \<and> t \<noteq> [] \<and> m t = Some (n, r)
          \<and> replaceFirst m (c # cs) = (c # pre) @ r @ drop (n - 1) (tl t)"
        using None by simp
      then show ?thesis by blast
    qed
  next
    case (Some x)
    obtain n r where x: "x = (n, r)"
      by (cases x) auto
    have "c # cs = [] @ (c # cs) \<and> c # cs \<noteq> [] \<and> m (c # cs) = Some (n, r)
          \<and> replaceFirst m (c # cs) = [] @ r @ drop (n - 1) (tl (c # cs))"
      using Some x by simp
    then show ?thesis by blast
  qed
qed


lemma domain_length: "toLowerCase d = ''domain='' \<Longrightarrow> length d = 7"
proof -
  assume "toLowerCase d = ''domain=''"
  then have "length (toLowerCase d) = length ''domain=''" by simp
  then show ?thesis by (simp add: toLowerCase_length)
qed

lemma matchesCI_domain:
  "matchesCI ''domain='' s = (toLowerCase (take 7 s) = ''domain='')"
proof -
  have "matchesCI ''domain='' s = startsWith (toLowerCase s) ''domain=''"
    by (rule matchesCI_lower [OF lower_letters(1)])
  also have "\<dots> = (take 7 (toLowerCase s) = ''domain='')"
  proof -
    have "length ''domain='' = 7" by simp
    then show ?thesis by (simp only: startsWith_def)
  qed
  also have "\<dots> = (toLowerCase (take 7 s) = ''domain='')"
    by (simp add: toLowerCase_def take_map)
  finally show ?thesis .
qed

lemma matchDomain_Some:
  assumes "matchDomain s = Some (n, r)"
  shows "\<exists>d v rest. s = d @ v @ rest \<and> toLowerCase d = ''domain='' \<and> v \<noteq> []
           \<and> CHR '';'' \<notin> set v \<and> (rest = [] \<or> hd rest = CHR '';'')
           \<and> n = 7 + length v \<and> r = ''domain='' @ PROXY_DOMAIN"
proof -
  let ?v = "takeWhile (\<lambda>x. x \<noteq> CHR '';'') (drop 7 s)"
  let ?rest = "dropWhile (\<lambda>x. x \<noteq> CHR '';'') (drop 7 s)"
  have c: "matchesCI ''domain='' s \<and> ?v \<noteq> []"
    using assms unfolding matchDomain_def by (metis option.distinct(1))
  then have nr: "n = 7 + length ?v" "r = ''domain='' @ PROXY_DOMAIN"
    using assms unfolding matchDomain_def by simp_all
  have 1: "s = take 7 s @ ?v @ ?rest"
    by simp
  have 2: "toLowerCase (take 7 s) = ''domain=''"
    using c by (simp only: matchesCI_domain)
  have 3: "CHR '';'' \<notin> set ?v"
    by (auto dest: set_takeWhileD)
  have 4: "?rest = [] \<or> hd ?rest = CHR '';''"
    using hd_dropWhile [of "\<lambda>x. x \<noteq> CHR '';''" "drop 7 s"] by blast
  show ?thesis
    using 1 2 3 4 c nr by blast
qed

lemma matchDomain_at:
  assumes "toLowerCase d = ''domain=''" and "v \<noteq> []" and "CHR '';'' \<notin> set v"
    and "rest = [] \<or> hd rest = CHR '';''"
  shows "matchDomain (d @ v @ rest) = Some (7 + length v, ''domain='' @ PROXY_DOMAIN)"
proof -
  have l: "length d = 7"
    by (rule domain_length [OF assms(1)])
  have m: "matchesCI ''domain='' (d @ v @ rest)"
    unfolding matchesCI_domain using l assms(1) by simp
  have dr: "drop 7 (d @ v @ rest) = v @ rest"
    using l by simp
  have st: "takeWhile (\<lambda>x. x \<noteq> CHR '';'') rest = []"
    using assms(4) by (cases rest) auto
  have "takeWhile (\<lambda>x. x \<noteq> CHR '';'') (v @ rest) = v @ takeWhile (\<lambda>x. x \<noteq> CHR '';'') rest"
    by (rule takeWhile_append2) (use assms(3) in auto)
  then have tw: "takeWhile (\<lambda>x. x \<noteq> CHR '';'') (v @ rest) = v"
    using st by simp
  show ?thesis
    unfolding matchDomain_def dr tw using m assms(2) by simp
qed

lemma matchDomain_None:
  "toLowerCase (take 7 s) \<noteq> ''domain='' \<Longrightarrow> matchDomain s = None"
  unfolding matchDomain_def matchesCI_domain by simp

lemma matchDomain_empty_value:
  "takeWhile (\<lambda>x. x \<noteq> CHR '';'') (drop 7 s) = [] \<Longrightarrow> matchDomain s = None"
  unfolding matchDomain_def by simp

text \<open>Before the first \<^verbatim>\<open>domain=\<close> of a cookie the regular expression does not match.\<close>

lemma matchDomain_before:
  assumes "toLowerCase d = ''domain=''" and "\<not> includesStr (toLowerCase pre) ''domain=''"
    and "pre = a @ c # b"
  shows "matchDomain (c # b @ d @ w) = None"
proof (rule matchDomain_None)
  have n: "\<not> includesStr (toLowerCase a @ toLowerCase (c # b)) ''domain=''"
    using assms(2,3) by (simp add: toLowerCase_append)
  have "\<not> startsWith (toLowerCase (c # b) @ ''domain='' @ toLowerCase w) ''domain=''"
    by (rule no_overlap [OF _ n]) (simp_all add: toLowerCase_def)
  then have "\<not> startsWith (toLowerCase (c # b @ d @ w)) ''domain=''"
    using assms(1) toLowerCase_append [of "c # b" "d @ w"] toLowerCase_append [of d w]
    by simp
  then have "\<not> matchesCI ''domain='' (c # b @ d @ w)"
    using matchesCI_lower [OF lower_letters(1), of "c # b @ d @ w"] by blast
  then show "toLowerCase (take 7 (c # b @ d @ w)) \<noteq> ''domain=''"
    using matchesCI_domain [of "c # b @ d @ w"] by blast
qed

lemma replaceDomain_first:
  assumes "toLowerCase d = ''domain=''" and "\<not> includesStr (toLowerCase pre) ''domain=''"
    and "v \<noteq> []" and "CHR '';'' \<notin> set v" and "rest = [] \<or> hd rest = CHR '';''"
  shows "replaceDomain (pre @ d @ v @ rest) = pre @ ''domain='' @ PROXY_DOMAIN @ rest"
proof -
  have l: "length d = 7"
    by (rule domain_length [OF assms(1)])
  have "replaceFirst matchDomain (pre @ d @ v @ rest) = pre @ replaceFirst matchDomain (d @ v @ rest)"
    by (rule replaceFirst_skip) (rule matchDomain_before [OF assms(1,2)])
  moreover have "replaceFirst matchDomain (d @ v @ rest)
      = (''domain='' @ PROXY_DOMAIN) @ drop (7 + length v) (d @ v @ rest)"
    by (rule replaceFirst_hit [of "d @ v @ rest" matchDomain, OF _ matchDomain_at [OF assms(1,3,4,5)]])
      (use assms(3) in auto)
  moreover have "drop (7 + length v) (d @ v @ rest) = rest"
    using l by simp
  ultimately show ?thesis
    by (simp add: replaceDomain_def)
qed


lemma replaceDomain_cases:
  "replaceDomain s = s
   \<or> (\<exists>pre d v rest. s = pre @ d @ v @ rest \<and> toLowerCase d = ''domain='' \<and> v \<noteq> []
        \<and> CHR '';'' \<notin> set v \<and> (rest = [] \<or> hd rest = CHR '';'')
        \<and> replaceDomain s = pre @ ''domain='' @ PROXY_DOMAIN @ rest)"
proof -
  from replaceFirst_cases [of matchDomain s]
  consider "replaceFirst matchDomain s = s"
    | pre t n r where "s = pre @ t" "t \<noteq> []" "matchDomain t = Some (n, r)"
        "replaceFirst matchDomain s = pre @ r @ drop (n - 1) (tl t)"
    by blast
  then show ?thesis
  proof cases
    case 1
    then show ?thesis by (simp add: replaceDomain_def)
  next
    case 2
    obtain d v rest where t: "t = d @ v @ rest" and d: "toLowerCase d = ''domain=''"
      and v: "v \<noteq> []" "CHR '';'' \<notin> set v" and rest: "rest = [] \<or> hd rest = CHR '';''"
      and n: "n = 7 + length v" and r: "r = ''domain='' @ PROXY_DOMAIN"
      using matchDomain_Some [OF 2(3)] by blast
    have l: "length d = 7"
      by (rule domain_length [OF d])
    have "drop (n - 1) (tl t) = drop n t"
      using 2(2) n by (cases t) (auto simp: drop_Cons')
    also have "\<dots> = rest"
      using l by (simp add: t n)
    finally have "replaceDomain s = pre @ ''domain='' @ PROXY_DOMAIN @ rest"
      using 2(4) by (simp add: replaceDomain_def r)
    moreover have "s = pre @ d @ v @ rest"
      using 2(1) t by simp
    ultimately show ?thesis
      using d v rest by blast
  qed
qed

lemma path_literals:
  "\<not> includesStr '' domain='' ''path=''"
  "includesStr ''; path=/'' ''path=''"
  "includesStr ''; domain='' ''domain=''"
  "CHR '';'' \<notin> set ''path=''"
  by code_simp+

lemma testCI_path: "testCI ''path='' s = includesStr (toLowerCase s) ''path=''"
  by (rule testCI_lower [OF lower_letters(2)])

lemma path_after_append:
  "testCI ''path='' (cookie @ ''; Domain='' @ PROXY_DOMAIN) = testCI ''path='' cookie"
proof -
  have "toLowerCase (cookie @ ''; Domain='' @ PROXY_DOMAIN)
      = toLowerCase cookie @ CHR '';'' # '' domain=''"
    using toLowerCase_literals(1) by (simp add: PROXY_DOMAIN_def toLowerCase_append)
  then show ?thesis
    unfolding testCI_path
    using includesStr_barrier [OF path_literals(4), of "toLowerCase cookie" "'' domain=''"]
      path_literals(1)
    by simp
qed

lemma path_kept:
  assumes "\<not> testCI ''path='' s"
  shows "\<not> testCI ''path='' (replaceDomain s)"
proof -
  from replaceDomain_cases [of s]
  consider "replaceDomain s = s"
    | pre d v rest where "s = pre @ d @ v @ rest" "toLowerCase d = ''domain=''"
        "rest = [] \<or> hd rest = CHR '';''"
        "replaceDomain s = pre @ ''domain='' @ PROXY_DOMAIN @ rest"
    by blast
  then show ?thesis
  proof cases
    case 1
    then show ?thesis using assms by simp
  next
    case 2
    have n: "\<not> includesStr (toLowerCase pre @ ''domain='' @ toLowerCase v @ toLowerCase rest) ''path=''"
      using assms 2(1,2) unfolding testCI_path by (simp add: toLowerCase_append)
    have a: "\<not> includesStr (toLowerCase pre @ ''domain='') ''path=''"
      using n includesStr_mono [of "toLowerCase pre @ ''domain=''" "''path=''" "[]"
          "toLowerCase v @ toLowerCase rest"]
      by auto
    have m: "toLowerCase (replaceDomain s) = (toLowerCase pre @ ''domain='') @ toLowerCase rest"
      by (simp only: 2(4) PROXY_DOMAIN_def toLowerCase_append toLowerCase_literals(3)
          append_Nil append_assoc)
    show ?thesis
    proof (cases rest)
      case Nil
      then show ?thesis
        unfolding testCI_path m using a by (simp add: toLowerCase_def)
    next
      case (Cons x xs)
      then have x: "x = CHR '';''"
        using 2(3) by simp
      have r: "toLowerCase rest = CHR '';'' # toLowerCase xs"
        using toLowerCase_literals(4) by (simp add: Cons x toLowerCase_def)
      have b: "\<not> includesStr (toLowerCase xs) ''path=''"
        using n includesStr_mono [of "toLowerCase xs" "''path=''"
            "toLowerCase pre @ ''domain='' @ toLowerCase v @ [CHR '';'']" "[]"]
        by (auto simp: r)
      show ?thesis
        unfolding testCI_path m r
        using includesStr_barrier [OF path_literals(4), of "toLowerCase pre @ ''domain=''"
            "toLowerCase xs"] a b
        by simp
    qed
  qed
qed

lemma domain_kept:
  assumes "includesStr (toLowerCase s) ''domain=''"
  shows "includesStr (toLowerCase (replaceDomain s)) ''domain=''"
proof -
  from replaceDomain_cases [of s]
  consider "replaceDomain s = s"
    | pre rest where "replaceDomain s = pre @ ''domain='' @ PROXY_DOMAIN @ rest"
    by blast
  then show ?thesis
  proof cases
    case 1
    then show ?thesis using assms by simp
  next
    case 2
    have "toLowerCase (replaceDomain s)
        = toLowerCase pre @ ''domain='' @ toLowerCase PROXY_DOMAIN @ toLowerCase rest"
      by (simp only: 2 toLowerCase_append toLowerCase_literals(3))
    then show ?thesis
      unfolding includesStr_iff by blast
  qed
qed

section \<open>Pages without a double slash\<close>

lemma slashes_cons:
  "includesStr (c # cs) ''//''
     = ((c = CHR ''/'' \<and> cs \<noteq> [] \<and> hd cs = CHR ''/'') \<or> includesStr cs ''//'')"
  by (cases cs) (simp_all add: startsWith_def)

lemma slashes_append:
  "includesStr (xs @ ys) ''//''
     = (includesStr xs ''//'' \<or> includesStr ys ''//''
        \<or> (xs \<noteq> [] \<and> last xs = CHR ''/'' \<and> ys \<noteq> [] \<and> hd ys = CHR ''/''))"
proof (induction xs)
  case Nil
  then show ?case by simp
next
  case (Cons c xs)
  have "includesStr ((c # xs) @ ys) ''//''
      = ((c = CHR ''/'' \<and> xs @ ys \<noteq> [] \<and> hd (xs @ ys) = CHR ''/'') \<or> includesStr (xs @ ys) ''//'')"
    using slashes_cons [of c "xs @ ys"] by simp
  then show ?case
    unfolding Cons.IH slashes_cons [of c xs] by (cases xs) auto
qed

lemma slashes_in: "includesStr s ''//'' \<Longrightarrow> CHR ''/'' \<in> set s"
  unfolding includesStr_iff by auto

lemma hexDigit_no_slash: "CHR ''/'' \<noteq> hexDigit n"
proof -
  have "hexDigit n \<in> set ''0123456789ABCDEF''"
    unfolding hexDigit_def by (rule nth_mem) simp
  then show ?thesis by auto
qed

lemma encode_no_slash: "CHR ''/'' \<notin> set (encodeURIComponent s)"
proof (induction s)
  case Nil
  then show ?case by (simp add: encodeURIComponent_def)
next
  case (Cons c cs)
  have u: "\<not> uriUnescaped CHR ''/''"
    by (simp add: uriUnescaped_def)
  have p: "CHR ''/'' \<notin> set (percentEscape c)"
    using hexDigit_no_slash [of "of_char c div 16"] hexDigit_no_slash [of "of_char c mod 16"]
    by (simp add: percentEscape_def)
  have "CHR ''/'' \<notin> set (if uriUnescaped c then [c] else percentEscape c)"
    using u p by auto
  then show ?case
    using Cons by (simp add: encodeURIComponent_def)
qed

lemma encode_nonempty: "s \<noteq> [] \<Longrightarrow> encodeURIComponent s \<noteq> []"
  by (cases s) (auto simp: encodeURIComponent_def percentEscape_def)

lemma attribute_no_slash: "a \<in> set attributeNames \<Longrightarrow> CHR ''/'' \<notin> set a"
  by (auto simp: attributeNames_def)

lemma rootRelative_slashes:
  assumes "enc \<noteq> []" and "CHR ''/'' \<notin> set enc"
  shows "\<not> includesStr t ''//'' \<Longrightarrow>
           \<not> includesStr (replaceAll (matchRootRelative enc) t) ''//''
           \<and> (replaceAll (matchRootRelative enc) t \<noteq> []
                \<and> hd (replaceAll (matchRootRelative enc) t) = CHR ''/''
              \<longrightarrow> t \<noteq> [] \<and> hd t = CHR ''/'')"
proof (induction t rule: length_induct)
  case (1 t)
  let ?m = "matchRootRelative enc"
  show ?case
  proof (cases t)
    case Nil
    then show ?thesis by simp
  next
    case (Cons c cs)
    have ncs: "\<not> includesStr cs ''//''"
      using 1(2) unfolding Cons slashes_cons by simp
    show ?thesis
    proof (cases "?m (c # cs)")
      case None
      have ih: "\<not> includesStr (replaceAll ?m cs) ''//''
           \<and> (replaceAll ?m cs \<noteq> [] \<and> hd (replaceAll ?m cs) = CHR ''/'' \<longrightarrow> cs \<noteq> [] \<and> hd cs = CHR ''/'')"
        using 1(1) ncs by (simp add: Cons)
      have o: "replaceAll ?m t = c # replaceAll ?m cs"
        using None by (simp add: Cons)
      have "\<not> (c = CHR ''/'' \<and> cs \<noteq> [] \<and> hd cs = CHR ''/'')"
        using 1(2) unfolding Cons slashes_cons by simp
      then show ?thesis
        unfolding o slashes_cons using ih by (auto simp: Cons)
    next
      case (Some nr)
      obtain n r where nr: "nr = (n, r)" by (cases nr)
      obtain a q rest where m: "a \<in> set attributeNames" "q = CHR 0x22 \<or> q = CHR 0x27"
          "c # cs = a @ ''='' @ [q] @ ''/'' @ rest" "\<not> startsWith rest ''/''"
          "n = length a + 3" "r = a @ ''='' @ [q] @ ''/'' @ enc @ ''/''"
        using matchRootRelative_Some [of enc "c # cs" n r] Some nr by auto
      have d: "drop n (c # cs) = rest"
        unfolding m(3) m(5) by simp
      have o: "replaceAll ?m t = r @ replaceAll ?m rest"
        using replaceAll_match [of "c # cs" ?m n r] Some nr m(5) d by (simp add: Cons)
      have nr': "\<not> includesStr rest ''//''"
        using 1(2) includesStr_mono [of rest "''//''" "a @ ''='' @ [q] @ ''/''" "[]"]
        unfolding Cons m(3) by auto
      have "length rest < length t"
        unfolding Cons m(3) by simp
      then have ih: "\<not> includesStr (replaceAll ?m rest) ''//''
           \<and> (replaceAll ?m rest \<noteq> [] \<and> hd (replaceAll ?m rest) = CHR ''/''
                \<longrightarrow> rest \<noteq> [] \<and> hd rest = CHR ''/'')"
        using 1(1) nr' by blast
      have hr: "\<not> (rest \<noteq> [] \<and> hd rest = CHR ''/'')"
        using m(4) by (cases rest) (auto simp: startsWith_def)
      have a0: "a \<noteq> []" "hd a \<noteq> CHR ''/''"
        using m(1) by (auto simp: attributeNames_def)
      have na: "\<not> includesStr a ''//''"
        using slashes_in attribute_no_slash [OF m(1)] by blast
      have ne: "\<not> includesStr enc ''//''"
        using slashes_in assms(2) by blast
      have he: "hd enc \<noteq> CHR ''/''" "last enc \<noteq> CHR ''/''"
        using assms by (metis hd_in_set, metis last_in_set)
      have q: "q \<noteq> CHR ''/''"
        using m(2) by auto
      have 3: "\<not> includesStr (enc @ CHR ''/'' # replaceAll ?m rest) ''//''"
        unfolding slashes_append slashes_cons using ne he ih hr by auto
      have 2: "\<not> includesStr (CHR ''='' # q # CHR ''/'' # enc @ CHR ''/'' # replaceAll ?m rest) ''//''"
        unfolding slashes_cons using 3 q he assms(1) by (cases enc) auto
      have 4: "\<not> includesStr (a @ CHR ''='' # q # CHR ''/'' # enc @ CHR ''/'' # replaceAll ?m rest) ''//''"
        unfolding slashes_append [of a] using na 2 by simp
      have t0: "t \<noteq> []" by (simp add: Cons)
      have o': "replaceAll ?m t = a @ CHR ''='' # q # CHR ''/'' # enc @ CHR ''/'' # replaceAll ?m rest"
        unfolding o m(6) by simp
      have "hd (replaceAll ?m t) = hd a"
        unfolding o' using a0 by simp
      then show ?thesis
        using 4 a0 unfolding o' [symmetric] by simp
    qed
  qed
qed

lemma rewriteProtocolRelative_unchanged:
  assumes "\<not> includesStr t ''//''"
  shows "rewriteProtocolRelative t = t"
  unfolding rewriteProtocolRelative_def
proof (rule replaceAll_none)
  fix a c b
  assume t: "t = a @ c # b"
  show "matchProtocolRelative (c # b) = None"
  proof (rule ccontr)
    assume "matchProtocolRelative (c # b) \<noteq> None"
    then obtain n r where "matchProtocolRelative (c # b) = Some (n, r)"
      by auto
    then obtain a' q h rest where "c # b = a' @ ''='' @ [q] @ ''//'' @ h @ rest"
      using matchProtocolRelative_Some by blast
    then have "t = (a @ a' @ ''='' @ [q]) @ ''//'' @ (h @ rest)"
      unfolding t by simp
    then have "includesStr t ''//''"
      unfolding includesStr_iff by blast
    then show False using assms by simp
  qed
qed

lemma handleHtmlContent_eq:
  assumes "response_text env response = Inr t" and "newURL env actualUrlStr = Inr u"
  shows "handleHtmlContent env response proto hst actualUrlStr
       = Inr (rewriteProtocolRelative (rewriteRootRelative (encodeURIComponent (origin u)) t))"
  using assms by (simp add: handleHtmlContent_def Let_def)

lemma handleHtmlContent_no_slashes:
  assumes "response_text env response = Inr t" and "newURL env actualUrlStr = Inr u"
    and "origin u \<noteq> []" and "\<not> includesStr t ''//''"
  shows "handleHtmlContent env response proto hst actualUrlStr
       = Inr (rewriteRootRelative (encodeURIComponent (origin u)) t)"
proof -
  have "\<not> includesStr (rewriteRootRelative (encodeURIComponent (origin u)) t) ''//''"
    unfolding rewriteRootRelative_def
    using rootRelative_slashes [OF encode_nonempty [OF assms(3)] encode_no_slash assms(4)]
    by blast
  then show ?thesis
    unfolding handleHtmlContent_eq [OF assms(1,2)]
    by (simp add: rewriteProtocolRelative_unchanged)
qed

section \<open>The handler and the origin response\<close>

lemma handleRequest_fetched:
  assumes "fetched env request = Some (actualUrlStr, response)"
  shows "handleRequest env request =
           (case rewriteResponse env request actualUrlStr response of
              Inl e \<Rightarrow> jsonResponse [(''error'', message e)] 500
            | Inr r \<Rightarrow> r)"
  using assms
  by (auto simp: fetched_def handleRequest_def proxy_def split: if_splits option.splits sum.splits)



section \<open>Raw passthrough\<close>



section \<open>Error responses\<close>

text \<open>
  C8. For a path other than \<^verbatim>\<open>/\<close>: when the path after its first character cannot be
  percent-decoded, the answer has status 400 and the body \<^verbatim>\<open>JSON.stringify\<close> makes of
  \<^verbatim>\<open>{error: "Invalid URL encoding."}\<close>; when any later step of the handler throws an error
  \<open>e\<close>, the answer has status 500 and the body made of \<^verbatim>\<open>{error: e.message}\<close>. Both carry
  \<^verbatim>\<open>Content-Type: application/json; charset=utf-8\<close>. The path \<^verbatim>\<open>/%E0%A4%A\<close> is of the
  first kind. \<^verbatim>\<open>JSON.stringify\<close> writes no space after the colon.
\<close>

theorem error_responses:
  assumes "pathname (req_url request) \<noteq> ''/''"
  shows "(decodeURIComponent (drop 1 (pathname (req_url request))) = None \<longrightarrow>
            handleRequest env request =
              \<lparr>res_status = 400, res_statusText = '''',
               res_headers = [(''Content-Type'', ''application/json; charset=utf-8'')],
               res_body = Text (JSON_stringify [(''error'', ''Invalid URL encoding.'')]),
               res_url = ''''\<rparr>)
       \<and> (\<forall>decoded e.
            decodeURIComponent (drop 1 (pathname (req_url request))) = Some decoded
            \<and> proxy env request decoded = Inl e \<longrightarrow>
            handleRequest env request =
              \<lparr>res_status = 500, res_statusText = '''',
               res_headers = [(''Content-Type'', ''application/json; charset=utf-8'')],
               res_body = Text (JSON_stringify [(''error'', message e)]),
               res_url = ''''\<rparr>)
       \<and> decodeURIComponent ''%E0%A4%A'' = None
       \<and> JSON_stringify [(''error'', ''Invalid URL encoding.'')]
           = ''{\"error\":\"Invalid URL encoding.\"}''"
proof -
  have a: "decodeURIComponent ''%E0%A4%A'' = None"
    by code_simp
  have b: "JSON_stringify [(''error'', ''Invalid URL encoding.'')]
           = ''{\"error\":\"Invalid URL encoding.\"}''"
    by code_simp
  have c: "decodeURIComponent (drop 1 (pathname (req_url request))) = None \<longrightarrow>
            handleRequest env request =
              \<lparr>res_status = 400, res_statusText = '''',
               res_headers = [(''Content-Type'', ''application/json; charset=utf-8'')],
               res_body = Text (JSON_stringify [(''error'', ''Invalid URL encoding.'')]),
               res_url = ''''\<rparr>"
    using assms by (simp add: handleRequest_def jsonResponse_def)
  have d: "\<forall>decoded e.
            decodeURIComponent (drop 1 (pathname (req_url request))) = Some decoded
            \<and> proxy env request decoded = Inl e \<longrightarrow>
            handleRequest env request =
              \<lparr>res_status = 500, res_statusText = '''',
               res_headers = [(''Content-Type'', ''application/json; charset=utf-8'')],
               res_body = Text (JSON_stringify [(''error'', message e)]),
               res_url = ''''\<rparr>"
    using assms by (simp add: handleRequest_def jsonResponse_def)
  show ?thesis
    using a b c d by blast
qed

theorem error_responses_witness:
  "handleRequest exampleEnvironment (exampleRequest ''/%E0%A4%A'' '''') =
     \<lparr>res_status = 400, res_statusText = '''',
      res_headers = [(''Content-Type'', ''application/json; charset=utf-8'')],
      res_body = Text ''{\"error\":\"Invalid URL encoding.\"}'', res_url = ''''\<rparr>
   \<and> proxy exampleEnvironment (exampleRequest ''/nowhere'' '''') ''nowhere''
       = Inl (JsError ''Invalid URL string.'')
   \<and> handleRequest exampleEnvironment (exampleRequest ''/nowhere'' '''') =
     \<lparr>res_status = 500, res_statusText = '''',
      res_headers = [(''Content-Type'', ''application/json; charset=utf-8'')],
      res_body = Text ''{\"error\":\"Invalid URL string.\"}'', res_url = ''''\<rparr>"
proof -
  let ?bad = "exampleRequest ''/%E0%A4%A'' ''''"
  let ?lost = "exampleRequest ''/nowhere'' ''''"
  have p1: "pathname (req_url ?bad) \<noteq> ''/''"
    by (simp add: exampleRequest_def mkUrl_def)
  have d1: "decodeURIComponent (drop 1 (pathname (req_url ?bad))) = None"
    by code_simp
  have p2: "pathname (req_url ?lost) \<noteq> ''/''"
    by (simp add: exampleRequest_def mkUrl_def)
  have d2: "decodeURIComponent (drop 1 (pathname (req_url ?lost))) = Some ''nowhere''"
    by code_simp
  have e2: "proxy exampleEnvironment ?lost ''nowhere'' = Inl (JsError ''Invalid URL string.'')"
    by code_simp
  have j1: "JSON_stringify [(''error'', ''Invalid URL encoding.'')]
           = ''{\"error\":\"Invalid URL encoding.\"}''"
    by code_simp
  have j2: "JSON_stringify [(''error'', ''Invalid URL string.'')]
           = ''{\"error\":\"Invalid URL string.\"}''"
    by code_simp
  have r1: "handleRequest exampleEnvironment ?bad =
     \<lparr>res_status = 400, res_statusText = '''',
      res_headers = [(''Content-Type'', ''application/json; charset=utf-8'')],
      res_body = Text ''{\"error\":\"Invalid URL encoding.\"}'', res_url = ''''\<rparr>"
    using error_responses [OF p1, of exampleEnvironment] d1 by (simp only: j1)
  have r2: "handleRequest exampleEnvironment ?lost =
     \<lparr>res_status = 500, res_statusText = '''',
      res_headers = [(''Content-Type'', ''application/json; charset=utf-8'')],
      res_body = Text ''{\"error\":\"Invalid URL string.\"}'', res_url = ''''\<rparr>"
    using error_responses [OF p2, of exampleEnvironment] d2 e2 j2 by (metis js_error.sel)
  show ?thesis using r1 e2 r2 by simp
qed

section \<open>Redirects\<close>

lemma rewriteResponse_redirect:
  "res_status response \<in> set redirectStatuses \<Longrightarrow>
     rewriteResponse env request actualUrlStr response = handleRedirect env response"
  by (simp add: rewriteResponse_def Let_def)

lemma handleRedirect_headers:
  assumes "handleRedirect env response = Inr r"
  shows "res_headers r = res_headers response
       \<or> (headers_get ''location'' (res_headers response) \<noteq> None
          \<and> (\<exists>v. res_headers r = headers_set ''Location'' v (res_headers response)))"
  using assms
  by (auto simp: handleRedirect_def split: option.splits if_splits sum.splits)

lemma handleRedirect_rest:
  assumes "handleRedirect env response = Inr r"
  shows "res_status r = res_status response \<and> res_statusText r = res_statusText response
       \<and> res_body r = Null"
  using assms
  by (auto simp: handleRedirect_def split: option.splits if_splits sum.splits)

lemma sameName_literals:
  "\<not> sameName ''Set-Cookie'' ''Location''"
  "\<not> sameName ''Cache-Control'' ''Location''"
  "\<not> sameName ''Access-Control-Allow-Origin'' ''Location''"
  "\<not> sameName ''Access-Control-Allow-Methods'' ''Location''"
  "\<not> sameName ''Access-Control-Allow-Headers'' ''Location''"
  "sameName ''location'' ''Location''"
  by code_simp+

lemma get_sameName:
  "sameName a b \<Longrightarrow> headers_get a hs = headers_get b hs"
  by (simp add: headers_get_def headers_getAll_def sameName_def)

lemma example_redirect:
  "fetched exampleEnvironment (exampleRequest ''/https%3A%2F%2Fa.com%2Fx'' '''') =
     Some (''https://a.com/x'',
       \<lparr>res_status = 302, res_statusText = ''Found'',
        res_headers = [(''Location'', ''/login''), (''Set-Cookie'', ''sid=1''),
                       (''Set-Cookie'', ''t=2; Domain=a.com; Path=/app'')],
        res_body = Null, res_url = ''https://a.com/x''\<rparr>)"
  by code_simp

lemma example_handleRedirect:
  "handleRedirect exampleEnvironment
       \<lparr>res_status = 302, res_statusText = ''Found'',
        res_headers = [(''Location'', ''/login''), (''Set-Cookie'', ''sid=1''),
                       (''Set-Cookie'', ''t=2; Domain=a.com; Path=/app'')],
        res_body = Null, res_url = ''https://a.com/x''\<rparr>
   = Inr \<lparr>res_status = 302, res_statusText = ''Found'',
        res_headers = [(''Location'', ''/https%3A%2F%2Fa.com%2Flogin''), (''Set-Cookie'', ''sid=1''),
                       (''Set-Cookie'', ''t=2; Domain=a.com; Path=/app'')],
        res_body = Null, res_url = ''''\<rparr>"
  by code_simp

lemma handleRedirect_total:
  assumes "headers_get ''location'' (res_headers response) = None
         \<or> headers_get ''location'' (res_headers response) = Some []
         \<or> (\<exists>location target. headers_get ''location'' (res_headers response) = Some location
               \<and> newURLWithBase env location (res_url response) = Inr target)"
  shows "\<exists>r. handleRedirect env response = Inr r"
  using assms
  by (auto simp: handleRedirect_def split: option.splits if_splits sum.splits)

lemma example_unresolved:
  "fetched exampleEnvironment (exampleRequest ''/https%3A%2F%2Fa.com%2Fbad'' '''') =
     Some (''https://a.com/bad'',
       \<lparr>res_status = 302, res_statusText = ''Found'',
        res_headers = [(''Location'', ''http://[''), (''Set-Cookie'', ''sid=1'')],
        res_body = Null, res_url = ''https://a.com/bad''\<rparr>)"
  by code_simp

text \<open>
  C10, as amended. When the origin answers with one of the statuses 301, 302, 303, 307, 308
  and its \<^verbatim>\<open>Location\<close> header is absent, has an empty value, or has a value that resolves
  against the URL of the response, the client receives the headers of the origin response
  with at most \<^verbatim>\<open>Location\<close> changed: the list is that of the origin, or that list with
  \<^verbatim>\<open>Location\<close> set to a new value; the entries of every other name are the same, and
  without a \<^verbatim>\<open>Location\<close> header the list is the same. So the \<^verbatim>\<open>Set-Cookie\<close> values are those
  of the origin, not rewritten, and \<^verbatim>\<open>Cache-Control\<close> and the three CORS headers are as the
  origin sent them: nothing is added.
\<close>

theorem redirect_headers_frame:
  assumes "fetched env request = Some (actualUrlStr, response)"
    and "res_status response \<in> set redirectStatuses"
    and "headers_get ''location'' (res_headers response) = None
         \<or> headers_get ''location'' (res_headers response) = Some []
         \<or> (\<exists>location target. headers_get ''location'' (res_headers response) = Some location
               \<and> newURLWithBase env location (res_url response) = Inr target)"
  shows "(res_headers (handleRequest env request) = res_headers response
          \<or> (\<exists>v. res_headers (handleRequest env request)
                = headers_set ''Location'' v (res_headers response)))
       \<and> headers_delete ''Location'' (res_headers (handleRequest env request))
           = headers_delete ''Location'' (res_headers response)
       \<and> (headers_get ''Location'' (res_headers response) = None
            \<longrightarrow> res_headers (handleRequest env request) = res_headers response)
       \<and> (\<forall>name. \<not> sameName name ''Location''
            \<longrightarrow> headers_getAll name (res_headers (handleRequest env request))
                = headers_getAll name (res_headers response))
       \<and> headers_getAll ''Set-Cookie'' (res_headers (handleRequest env request))
           = headers_getAll ''Set-Cookie'' (res_headers response)
       \<and> headers_get ''Cache-Control'' (res_headers (handleRequest env request))
           = headers_get ''Cache-Control'' (res_headers response)
       \<and> headers_get ''Access-Control-Allow-Origin'' (res_headers (handleRequest env request))
           = headers_get ''Access-Control-Allow-Origin'' (res_headers response)
       \<and> headers_get ''Access-Control-Allow-Methods'' (res_headers (handleRequest env request))
           = headers_get ''Access-Control-Allow-Methods'' (res_headers response)
       \<and> headers_get ''Access-Control-Allow-Headers'' (res_headers (handleRequest env request))
           = headers_get ''Access-Control-Allow-Headers'' (res_headers response)"
proof -
  obtain r where r: "handleRedirect env response = Inr r"
    using handleRedirect_total [OF assms(3)] by blast
  have 1: "handleRequest env request = r"
    using handleRequest_fetched [OF assms(1)] assms(2) r
    by (simp add: rewriteResponse_redirect)
  have 0: "res_headers r = res_headers response
          \<or> (\<exists>v. res_headers r = headers_set ''Location'' v (res_headers response))"
    using handleRedirect_headers [OF r] by blast
  have 2: "headers_delete ''Location'' (res_headers r)
           = headers_delete ''Location'' (res_headers response)"
    using handleRedirect_headers [OF r] by (auto simp: delete_set)
  have 3: "headers_get ''Location'' (res_headers response) = None
            \<longrightarrow> res_headers r = res_headers response"
    using handleRedirect_headers [OF r] get_sameName [OF sameName_literals(6)]
    by auto
  have 4: "headers_getAll name (res_headers r) = headers_getAll name (res_headers response)"
    if "\<not> sameName name ''Location''" for name
    using handleRedirect_headers [OF r] that by (auto simp: getAll_set)
  show ?thesis
    unfolding 1 using 0 2 3 4 sameName_literals(1-5) by (simp add: headers_get_def)
qed

theorem redirect_headers_frame_witness:
  "headers_get ''location'' [(''Location'', ''/login''), (''Set-Cookie'', ''sid=1''),
                       (''Set-Cookie'', ''t=2; Domain=a.com; Path=/app'')] = Some ''/login''
   \<and> newURLWithBase exampleEnvironment ''/login'' ''https://a.com/x''
       = Inr (mkUrl ''https:'' ''a.com'' ''/login'' '''')
   \<and> handleRequest exampleEnvironment (exampleRequest ''/https%3A%2F%2Fa.com%2Fx'' '''')
     = \<lparr>res_status = 302, res_statusText = ''Found'',
        res_headers = [(''Location'', ''/https%3A%2F%2Fa.com%2Flogin''), (''Set-Cookie'', ''sid=1''),
                       (''Set-Cookie'', ''t=2; Domain=a.com; Path=/app'')],
        res_body = Null, res_url = ''''\<rparr>
   \<and> headers_getAll ''Set-Cookie''
         (res_headers (handleRequest exampleEnvironment (exampleRequest ''/https%3A%2F%2Fa.com%2Fx'' '''')))
       = [''sid=1'', ''t=2; Domain=a.com; Path=/app'']
   \<and> headers_get ''Cache-Control''
         (res_headers (handleRequest exampleEnvironment (exampleRequest ''/https%3A%2F%2Fa.com%2Fx'' '''')))
       = None"
proof -
  let ?r = "\<lparr>res_status = 302, res_statusText = ''Found'',
        res_headers = [(''Location'', ''/login''), (''Set-Cookie'', ''sid=1''),
                       (''Set-Cookie'', ''t=2; Domain=a.com; Path=/app'')],
        res_body = Null, res_url = ''https://a.com/x''\<rparr>"
  have s: "res_status ?r \<in> set redirectStatuses"
    by (simp add: redirectStatuses_def)
  have l: "headers_get ''location'' (res_headers ?r) = Some ''/login''"
    by code_simp
  have t: "newURLWithBase exampleEnvironment ''/login'' (res_url ?r)
       = Inr (mkUrl ''https:'' ''a.com'' ''/login'' '''')"
    by code_simp
  have h: "headers_get ''location'' (res_headers ?r) = None
         \<or> headers_get ''location'' (res_headers ?r) = Some []
         \<or> (\<exists>location target. headers_get ''location'' (res_headers ?r) = Some location
               \<and> newURLWithBase exampleEnvironment location (res_url ?r) = Inr target)"
    using l t by blast
  have g: "headers_getAll ''Set-Cookie'' (res_headers ?r) = [''sid=1'', ''t=2; Domain=a.com; Path=/app'']"
    by code_simp
  have c: "headers_get ''Cache-Control'' (res_headers ?r) = None"
    by code_simp
  note w = redirect_headers_frame [OF example_redirect s h]
  have 1: "headers_getAll ''Set-Cookie''
         (res_headers (handleRequest exampleEnvironment (exampleRequest ''/https%3A%2F%2Fa.com%2Fx'' '''')))
       = [''sid=1'', ''t=2; Domain=a.com; Path=/app'']"
    using w g by simp
  have 2: "headers_get ''Cache-Control''
         (res_headers (handleRequest exampleEnvironment (exampleRequest ''/https%3A%2F%2Fa.com%2Fx'' '''')))
       = None"
    using w c by simp
  have 3: "handleRequest exampleEnvironment (exampleRequest ''/https%3A%2F%2Fa.com%2Fx'' '''')
     = \<lparr>res_status = 302, res_statusText = ''Found'',
        res_headers = [(''Location'', ''/https%3A%2F%2Fa.com%2Flogin''), (''Set-Cookie'', ''sid=1''),
                       (''Set-Cookie'', ''t=2; Domain=a.com; Path=/app'')],
        res_body = Null, res_url = ''''\<rparr>"
    using handleRequest_fetched [OF example_redirect] example_handleRedirect
    by (simp add: rewriteResponse_redirect redirectStatuses_def)
  show ?thesis
    using l t 1 2 3 by simp
qed

text \<open>
  C10 without the amendment fails for a \<^verbatim>\<open>Location\<close> that does not resolve: the origin
  answers 302 with \<^verbatim>\<open>Location: http://[\<close> and a cookie, \<^verbatim>\<open>new URL\<close> throws in the \<^verbatim>\<open>try\<close> of
  \<^verbatim>\<open>handleRedirect\<close> and again in its \<^verbatim>\<open>catch\<close>, and the handler answers 500 with the one
  header \<^verbatim>\<open>Content-Type\<close>. The headers of the origin are not in the answer.
\<close>

theorem redirect_unresolved_location:
  "fetched exampleEnvironment (exampleRequest ''/https%3A%2F%2Fa.com%2Fbad'' '''') =
     Some (''https://a.com/bad'',
       \<lparr>res_status = 302, res_statusText = ''Found'',
        res_headers = [(''Location'', ''http://[''), (''Set-Cookie'', ''sid=1'')],
        res_body = Null, res_url = ''https://a.com/bad''\<rparr>)
   \<and> handleRequest exampleEnvironment (exampleRequest ''/https%3A%2F%2Fa.com%2Fbad'' '''')
       = \<lparr>res_status = 500, res_statusText = '''',
          res_headers = [(''Content-Type'', ''application/json; charset=utf-8'')],
          res_body = Text ''{\"error\":\"Invalid URL string.\"}'', res_url = ''''\<rparr>
   \<and> headers_getAll ''Set-Cookie'' [(''Location'', ''http://[''), (''Set-Cookie'', ''sid=1'')]
       = [''sid=1'']
   \<and> headers_getAll ''Set-Cookie''
         (res_headers (handleRequest exampleEnvironment (exampleRequest ''/https%3A%2F%2Fa.com%2Fbad'' '''')))
       = []
   \<and> headers_get ''Content-Type'' [(''Location'', ''http://[''), (''Set-Cookie'', ''sid=1'')] = None
   \<and> headers_get ''Content-Type''
         (res_headers (handleRequest exampleEnvironment (exampleRequest ''/https%3A%2F%2Fa.com%2Fbad'' '''')))
       = Some ''application/json; charset=utf-8''"
proof -
  let ?r = "\<lparr>res_status = 302, res_statusText = ''Found'',
        res_headers = [(''Location'', ''http://[''), (''Set-Cookie'', ''sid=1'')],
        res_body = Null, res_url = ''https://a.com/bad''\<rparr>"
  have r: "handleRedirect exampleEnvironment ?r = Inl (JsError ''Invalid URL string.'')"
    by code_simp
  have j: "JSON_stringify [(''error'', ''Invalid URL string.'')] = ''{\"error\":\"Invalid URL string.\"}''"
    by code_simp
  have h: "handleRequest exampleEnvironment (exampleRequest ''/https%3A%2F%2Fa.com%2Fbad'' '''')
       = \<lparr>res_status = 500, res_statusText = '''',
          res_headers = [(''Content-Type'', ''application/json; charset=utf-8'')],
          res_body = Text ''{\"error\":\"Invalid URL string.\"}'', res_url = ''''\<rparr>"
    using handleRequest_fetched [OF example_unresolved] r j
    by (simp add: rewriteResponse_redirect redirectStatuses_def jsonResponse_def)
  have a: "headers_getAll ''Set-Cookie'' [(''Location'', ''http://[''), (''Set-Cookie'', ''sid=1'')]
       = [''sid=1'']"
    by code_simp
  have b: "headers_getAll ''Set-Cookie'' [(''Content-Type'', ''application/json; charset=utf-8'')] = []"
    by code_simp
  have c: "headers_get ''Content-Type'' [(''Location'', ''http://[''), (''Set-Cookie'', ''sid=1'')] = None"
    by code_simp
  have d: "headers_get ''Content-Type'' [(''Content-Type'', ''application/json; charset=utf-8'')]
       = Some ''application/json; charset=utf-8''"
    by code_simp
  show ?thesis
    using example_unresolved a b c d unfolding h by simp
qed

lemma example_redirect_response:
  "handleRequest exampleEnvironment (exampleRequest ''/https%3A%2F%2Fa.com%2Fx'' '''')
     = \<lparr>res_status = 302, res_statusText = ''Found'',
        res_headers = [(''Location'', ''/https%3A%2F%2Fa.com%2Flogin''), (''Set-Cookie'', ''sid=1''),
                       (''Set-Cookie'', ''t=2; Domain=a.com; Path=/app'')],
        res_body = Null, res_url = ''''\<rparr>"
  using handleRequest_fetched [OF example_redirect] example_handleRedirect
  by (simp add: rewriteResponse_redirect redirectStatuses_def)

lemma finalizer_names:
  "\<not> sameName ''Cache-Control'' ''Access-Control-Allow-Origin''"
  "\<not> sameName ''Cache-Control'' ''Access-Control-Allow-Methods''"
  "\<not> sameName ''Cache-Control'' ''Access-Control-Allow-Headers''"
  "\<not> sameName ''Access-Control-Allow-Origin'' ''Access-Control-Allow-Methods''"
  "\<not> sameName ''Access-Control-Allow-Origin'' ''Access-Control-Allow-Headers''"
  "\<not> sameName ''Access-Control-Allow-Methods'' ''Access-Control-Allow-Headers''"
  by code_simp+

lemma finalizer_sets:
  "headers_get ''Cache-Control'' (setCorsHeaders (setNoCacheHeaders hs)) = Some ''no-store''
   \<and> headers_get ''Access-Control-Allow-Origin'' (setCorsHeaders (setNoCacheHeaders hs)) = Some ''*''
   \<and> headers_get ''Access-Control-Allow-Methods'' (setCorsHeaders (setNoCacheHeaders hs))
       = Some ''GET, POST, PUT, DELETE''
   \<and> headers_get ''Access-Control-Allow-Headers'' (setCorsHeaders (setNoCacheHeaders hs)) = Some ''*''"
  unfolding setCorsHeaders_def setNoCacheHeaders_def
  using finalizer_names
  by (simp only: get_set_same get_set_other simp_thms)

lemma rewriteResponse_finalized:
  assumes "res_status response \<notin> set redirectStatuses"
    and "rewriteResponse env request actualUrlStr response = Inr r"
  shows "\<exists>hs. res_headers r = setCorsHeaders (setNoCacheHeaders hs)"
proof (cases "case headers_get ''Content-Type'' (res_headers response) of
                None \<Rightarrow> False | Some ct \<Rightarrow> includesStr ct ''text/html''")
  case True
  then show ?thesis
    using assms unfolding rewriteResponse_def Let_def
    by (cases "handleHtmlContent env response (protocol (req_url request))
                 (host (req_url request)) actualUrlStr") auto
next
  case False
  then show ?thesis
    using assms unfolding rewriteResponse_def Let_def by auto
qed

lemma finalizer_on_other_paths:
  assumes "res_status response \<notin> set redirectStatuses"
    and "rewriteResponse env request actualUrlStr response = Inr r"
  shows "headers_get ''Cache-Control'' (res_headers r) = Some ''no-store''
       \<and> headers_get ''Access-Control-Allow-Origin'' (res_headers r) = Some ''*''
       \<and> headers_get ''Access-Control-Allow-Methods'' (res_headers r) = Some ''GET, POST, PUT, DELETE''
       \<and> headers_get ''Access-Control-Allow-Headers'' (res_headers r) = Some ''*''"
proof -
  obtain hs where h: "res_headers r = setCorsHeaders (setNoCacheHeaders hs)"
    using rewriteResponse_finalized [OF assms] by blast
  show ?thesis unfolding h by (rule finalizer_sets)
qed


text \<open>
  C1. The finalizer is skipped on the redirect branch. The origin of the example answers 302 with a
  \<^verbatim>\<open>Location\<close>; the handler returns what \<^verbatim>\<open>handleRedirect\<close> built from the origin's headers,
  and none of \<^verbatim>\<open>Cache-Control\<close> and the three CORS headers is in the answer. On the two
  other branches they are set, see \<open>finalizer_on_other_paths\<close>.
\<close>

theorem finalizer_skipped_on_redirect:
  "res_status (handleRequest exampleEnvironment (exampleRequest ''/https%3A%2F%2Fa.com%2Fx'' '''')) = 302
   \<and> headers_get ''Location''
         (res_headers (handleRequest exampleEnvironment (exampleRequest ''/https%3A%2F%2Fa.com%2Fx'' '''')))
       = Some ''/https%3A%2F%2Fa.com%2Flogin''
   \<and> headers_get ''Cache-Control''
         (res_headers (handleRequest exampleEnvironment (exampleRequest ''/https%3A%2F%2Fa.com%2Fx'' '''')))
       = None
   \<and> headers_get ''Access-Control-Allow-Origin''
         (res_headers (handleRequest exampleEnvironment (exampleRequest ''/https%3A%2F%2Fa.com%2Fx'' '''')))
       = None
   \<and> headers_get ''Access-Control-Allow-Methods''
         (res_headers (handleRequest exampleEnvironment (exampleRequest ''/https%3A%2F%2Fa.com%2Fx'' '''')))
       = None
   \<and> headers_get ''Access-Control-Allow-Headers''
         (res_headers (handleRequest exampleEnvironment (exampleRequest ''/https%3A%2F%2Fa.com%2Fx'' '''')))
       = None"
  unfolding example_redirect_response by code_simp

text \<open>
  C3, as amended. When the origin answers with one of the statuses 301, 302, 303, 307, 308:
  if the value of \<^verbatim>\<open>Location\<close> is not empty and resolves against the URL of the response, the
  client receives the same status and status text, no body, and the origin's headers with
  \<^verbatim>\<open>Location\<close> set to \<^verbatim>\<open>/\<close> followed by the percent-encoded resolved URL, every other
  header as it was; if there is no \<^verbatim>\<open>Location\<close> header, or its value is empty, the client
  receives status, status text and headers unchanged and no body.
\<close>

theorem redirect_location:
  assumes "fetched env request = Some (actualUrlStr, response)"
    and "res_status response \<in> set redirectStatuses"
  shows "(\<forall>location target.
            headers_get ''location'' (res_headers response) = Some location \<and> location \<noteq> []
            \<and> newURLWithBase env location (res_url response) = Inr target \<longrightarrow>
            handleRequest env request =
              \<lparr>res_status = res_status response, res_statusText = res_statusText response,
               res_headers = headers_set ''Location'' (''/'' @ encodeURIComponent (href target))
                               (res_headers response),
               res_body = Null, res_url = ''''\<rparr>
            \<and> headers_get ''Location'' (res_headers (handleRequest env request))
                = Some (''/'' @ encodeURIComponent (href target))
            \<and> headers_delete ''Location'' (res_headers (handleRequest env request))
                = headers_delete ''Location'' (res_headers response))
       \<and> (headers_get ''location'' (res_headers response) = None
            \<or> headers_get ''location'' (res_headers response) = Some [] \<longrightarrow>
            handleRequest env request =
              \<lparr>res_status = res_status response, res_statusText = res_statusText response,
               res_headers = res_headers response, res_body = Null, res_url = ''''\<rparr>)"
proof -
  have h: "handleRequest env request =
      (case handleRedirect env response of
         Inl e \<Rightarrow> jsonResponse [(''error'', message e)] 500 | Inr r \<Rightarrow> r)"
    using handleRequest_fetched [OF assms(1)] assms(2) by (simp add: rewriteResponse_redirect)
  have a: "handleRequest env request =
              \<lparr>res_status = res_status response, res_statusText = res_statusText response,
               res_headers = headers_set ''Location'' (''/'' @ encodeURIComponent (href target))
                               (res_headers response),
               res_body = Null, res_url = ''''\<rparr>"
    if "headers_get ''location'' (res_headers response) = Some location" "location \<noteq> []"
      "newURLWithBase env location (res_url response) = Inr target" for location target
    using that by (simp add: h handleRedirect_def)
  have b: "handleRequest env request =
              \<lparr>res_status = res_status response, res_statusText = res_statusText response,
               res_headers = res_headers response, res_body = Null, res_url = ''''\<rparr>"
    if "headers_get ''location'' (res_headers response) = None
            \<or> headers_get ''location'' (res_headers response) = Some []"
    using that by (auto simp: h handleRedirect_def)
  show ?thesis
    using a b by (auto simp: get_set_same delete_set)
qed


theorem redirect_location_witness:
  "headers_get ''location'' [(''Location'', ''/login''), (''Set-Cookie'', ''sid=1''),
                       (''Set-Cookie'', ''t=2; Domain=a.com; Path=/app'')] = Some ''/login''
   \<and> newURLWithBase exampleEnvironment ''/login'' ''https://a.com/x''
       = Inr (mkUrl ''https:'' ''a.com'' ''/login'' '''')
   \<and> headers_get ''Location''
         (res_headers (handleRequest exampleEnvironment (exampleRequest ''/https%3A%2F%2Fa.com%2Fx'' '''')))
       = Some ''/https%3A%2F%2Fa.com%2Flogin''
   \<and> res_status (handleRequest exampleEnvironment (exampleRequest ''/https%3A%2F%2Fa.com%2Fx'' '''')) = 302
   \<and> res_statusText (handleRequest exampleEnvironment (exampleRequest ''/https%3A%2F%2Fa.com%2Fx'' ''''))
       = ''Found''
   \<and> res_body (handleRequest exampleEnvironment (exampleRequest ''/https%3A%2F%2Fa.com%2Fx'' ''''))
       = Null"
proof -
  let ?r = "\<lparr>res_status = 302, res_statusText = ''Found'',
        res_headers = [(''Location'', ''/login''), (''Set-Cookie'', ''sid=1''),
                       (''Set-Cookie'', ''t=2; Domain=a.com; Path=/app'')],
        res_body = Null, res_url = ''https://a.com/x''\<rparr>"
  have s: "res_status ?r \<in> set redirectStatuses"
    by (simp add: redirectStatuses_def)
  have l: "headers_get ''location'' (res_headers ?r) = Some ''/login''"
    by code_simp
  have n: "''/login'' \<noteq> []"
    by simp
  have t: "newURLWithBase exampleEnvironment ''/login'' (res_url ?r)
       = Inr (mkUrl ''https:'' ''a.com'' ''/login'' '''')"
    by code_simp
  have e: "''/'' @ encodeURIComponent (href (mkUrl ''https:'' ''a.com'' ''/login'' ''''))
       = ''/https%3A%2F%2Fa.com%2Flogin''"
    by code_simp
  note w = redirect_location [OF example_redirect s, THEN conjunct1, rule_format,
      OF conjI [OF l conjI [OF n t]]]
  show ?thesis using w l t unfolding e by (simp add: get_set_same)
qed

lemma example_empty_location:
  "fetched exampleEnvironment (exampleRequest ''/https%3A%2F%2Fa.com%2Fempty'' '''') =
     Some (''https://a.com/empty'',
       \<lparr>res_status = 302, res_statusText = ''Found'',
        res_headers = [(''Location'', '''')],
        res_body = Null, res_url = ''https://a.com/empty''\<rparr>)"
  by code_simp

text \<open>
  C3 without the amendment fails for a \<^verbatim>\<open>Location\<close> header with an empty value: the
  header is there and resolves to the URL of the response, and the handler leaves it as it
  is.
\<close>

theorem redirect_empty_location:
  "fetched exampleEnvironment (exampleRequest ''/https%3A%2F%2Fa.com%2Fempty'' '''') =
     Some (''https://a.com/empty'',
       \<lparr>res_status = 302, res_statusText = ''Found'',
        res_headers = [(''Location'', '''')],
        res_body = Null, res_url = ''https://a.com/empty''\<rparr>)
   \<and> headers_getAll ''Location'' [(''Location'', '''')] = ['''']
   \<and> newURLWithBase exampleEnvironment '''' ''https://a.com/empty''
       = Inr (mkUrl ''https:'' ''a.com'' ''/empty'' '''')
   \<and> ''/'' @ encodeURIComponent (href (mkUrl ''https:'' ''a.com'' ''/empty'' ''''))
       = ''/https%3A%2F%2Fa.com%2Fempty''
   \<and> res_headers (handleRequest exampleEnvironment (exampleRequest ''/https%3A%2F%2Fa.com%2Fempty'' ''''))
       = [(''Location'', '''')]
   \<and> headers_get ''Location''
         (res_headers (handleRequest exampleEnvironment (exampleRequest ''/https%3A%2F%2Fa.com%2Fempty'' '''')))
       \<noteq> Some ''/https%3A%2F%2Fa.com%2Fempty''"
proof -
  let ?r = "\<lparr>res_status = 302, res_statusText = ''Found'',
        res_headers = [(''Location'', '''')],
        res_body = Null, res_url = ''https://a.com/empty''\<rparr>"
  have r: "handleRedirect exampleEnvironment ?r =
      Inr \<lparr>res_status = 302, res_statusText = ''Found'',
        res_headers = [(''Location'', '''')], res_body = Null, res_url = ''''\<rparr>"
    by code_simp
  have h: "handleRequest exampleEnvironment (exampleRequest ''/https%3A%2F%2Fa.com%2Fempty'' '''')
      = \<lparr>res_status = 302, res_statusText = ''Found'',
        res_headers = [(''Location'', '''')], res_body = Null, res_url = ''''\<rparr>"
    using handleRequest_fetched [OF example_empty_location] r
    by (simp add: rewriteResponse_redirect redirectStatuses_def)
  have a: "headers_getAll ''Location'' [(''Location'', '''')] = ['''']"
    by code_simp
  have b: "newURLWithBase exampleEnvironment '''' ''https://a.com/empty''
       = Inr (mkUrl ''https:'' ''a.com'' ''/empty'' '''')"
    by code_simp
  have c: "''/'' @ encodeURIComponent (href (mkUrl ''https:'' ''a.com'' ''/empty'' ''''))
       = ''/https%3A%2F%2Fa.com%2Fempty''"
    by code_simp
  have d: "headers_get ''Location'' [(''Location'', '''')] \<noteq> Some ''/https%3A%2F%2Fa.com%2Fempty''"
    by code_simp
  show ?thesis
    using example_empty_location a b c d unfolding h by simp
qed

section \<open>The outgoing request\<close>

text \<open>
  C5. For a path other than \<^verbatim>\<open>/\<close> that decodes, when the outgoing request is built: the
  target string is the decoded path after its first character, with the protocol of the
  incoming request and \<^verbatim>\<open>//\<close> before it unless it starts with \<^verbatim>\<open>http://\<close> or
  \<^verbatim>\<open>https://\<close>, and the query string of the incoming request after it; the URL of the
  outgoing request is the parse of that string; and that request is the one fetched.
  (Before the query string is appended the handler parses the string without it and
  discards the result; a failure there is a failure of the build.)
\<close>

theorem target_url_extraction:
  assumes "pathname (req_url request) \<noteq> ''/''"
    and "decodeURIComponent (drop 1 (pathname (req_url request))) = Some decoded"
    and "buildRequest env request decoded = Inr (actualUrlStr, modifiedRequest)"
  shows "actualUrlStr =
           (if startsWith decoded ''http://'' \<or> startsWith decoded ''https://'' then decoded
            else protocol (req_url request) @ ''//'' @ decoded) @ search (req_url request)
       \<and> newURL env actualUrlStr = Inr (req_url modifiedRequest)
       \<and> handleRequest env request =
           (case fetch env modifiedRequest of
              Inl e \<Rightarrow> jsonResponse [(''error'', message e)] 500
            | Inr response \<Rightarrow>
                (case rewriteResponse env request actualUrlStr response of
                   Inl e \<Rightarrow> jsonResponse [(''error'', message e)] 500
                 | Inr r \<Rightarrow> r))"
proof -
  have a: "actualUrlStr = ensureProtocol decoded (protocol (req_url request)) @ search (req_url request)"
    using assms(3)
    by (auto simp: buildRequest_def Let_def newRequest_def split: sum.splits)
  have b: "newURL env actualUrlStr = Inr (req_url modifiedRequest)"
    using assms(3)
    by (auto simp: buildRequest_def Let_def newRequest_def handleSpecialCases_def split: sum.splits)
  have c: "handleRequest env request =
           (case fetch env modifiedRequest of
              Inl e \<Rightarrow> jsonResponse [(''error'', message e)] 500
            | Inr response \<Rightarrow>
                (case rewriteResponse env request actualUrlStr response of
                   Inl e \<Rightarrow> jsonResponse [(''error'', message e)] 500
                 | Inr r \<Rightarrow> r))"
    using assms by (simp add: handleRequest_def proxy_def split: sum.splits)
  show ?thesis
    using a b c by (simp add: ensureProtocol_def)
qed

theorem target_url_extraction_witness:
  "decodeURIComponent (drop 1 (pathname (req_url (exampleRequest ''/a.com/logo.png'' ''?size=2''))))
     = Some ''a.com/logo.png''
   \<and> buildRequest exampleEnvironment (exampleRequest ''/a.com/logo.png'' ''?size=2'') ''a.com/logo.png''
       = Inr (''https://a.com/logo.png?size=2'',
              \<lparr>req_url = mkUrl ''https:'' ''a.com'' ''/logo.png'' ''?size=2'', req_method = ''GET'',
               req_headers = [(''accept'', ''*/*'')], req_body = Null, req_redirect = ''manual''\<rparr>)
   \<and> newURL exampleEnvironment ''https://a.com/logo.png?size=2''
       = Inr (mkUrl ''https:'' ''a.com'' ''/logo.png'' ''?size=2'')"
proof -
  let ?q = "exampleRequest ''/a.com/logo.png'' ''?size=2''"
  let ?m = "\<lparr>req_url = mkUrl ''https:'' ''a.com'' ''/logo.png'' ''?size=2'', req_method = ''GET'',
               req_headers = [(''accept'', ''*/*'')], req_body = Null,
               req_redirect = ''manual''\<rparr> :: string request"
  have p: "pathname (req_url ?q) \<noteq> ''/''"
    by (simp add: exampleRequest_def mkUrl_def)
  have d: "decodeURIComponent (drop 1 (pathname (req_url ?q))) = Some ''a.com/logo.png''"
    by code_simp
  have b: "buildRequest exampleEnvironment ?q ''a.com/logo.png''
       = Inr (''https://a.com/logo.png?size=2'', ?m)"
    by code_simp
  have "newURL exampleEnvironment ''https://a.com/logo.png?size=2'' = Inr (req_url ?m)"
    using target_url_extraction [OF p d b] by blast
  then show ?thesis using d b by simp
qed

lemma rule_names:
  "\<not> sameName ''Origin'' ''Referer''"
  by code_simp

lemma pximg_rule:
  assumes "hostname (req_url request) = ''i.pximg.net''"
  shows "headers_get ''Origin'' (req_headers (handleSpecialCases request)) = None
       \<and> headers_get ''Referer'' (req_headers (handleSpecialCases request))
           = Some ''https://www.pixiv.net/''"
proof -
  have e: "ruleEntries ''i.pximg.net''
      = [(''Origin'', ''DELETE''), (''Referer'', ''https://www.pixiv.net/'')]"
    by code_simp
  have k: "''https://www.pixiv.net/'' \<noteq> ''KEEP''" "''https://www.pixiv.net/'' \<noteq> ''DELETE''"
    by simp_all
  have "req_headers (handleSpecialCases request)
      = headers_set ''Referer'' ''https://www.pixiv.net/''
          (headers_delete ''Origin'' (req_headers request))"
    using k by (simp add: handleSpecialCases_def assms e applyRule_def)
  then show ?thesis
    using rule_names by (simp add: get_set_same get_set_other get_delete_same)
qed

lemma wildcard_rule:
  assumes "map_of specialCases (hostname (req_url request)) = None"
    and "hostname (req_url request) \<notin> set objectPrototypeKeys"
  shows "headers_get ''Origin'' (req_headers (handleSpecialCases request)) = None
       \<and> headers_get ''Referer'' (req_headers (handleSpecialCases request)) = None"
proof -
  have s: "specialCases_get ''*'' = Rules [(''Origin'', ''DELETE''), (''Referer'', ''DELETE'')]"
    by code_simp
  have e: "ruleEntries (hostname (req_url request))
      = [(''Origin'', ''DELETE''), (''Referer'', ''DELETE'')]"
    using assms by (simp add: ruleEntries_def specialCases_get_def [of "hostname (req_url request)"] s)
  have k: "''DELETE'' \<noteq> ''KEEP''"
    by simp
  have "req_headers (handleSpecialCases request)
      = headers_delete ''Referer'' (headers_delete ''Origin'' (req_headers request))"
    using k by (simp add: handleSpecialCases_def e applyRule_def)
  then show ?thesis
    using rule_names by (simp add: headers_get_def getAll_delete sameName_def)
qed

text \<open>
  C4. The rule for \<^verbatim>\<open>i.pximg.net\<close> holds (\<open>pximg_rule\<close>), and the fallback holds for a host
  name that is no key of the table and no property name of \<^verbatim>\<open>Object.prototype\<close>
  (\<open>wildcard_rule\<close>). It fails for the host name \<^verbatim>\<open>constructor\<close>, which is no key of the
  table: \<^verbatim>\<open>specialCases["constructor"]\<close> is the inherited function \<^verbatim>\<open>Object\<close>, the fallback is
  not taken, no rule is applied, and the request that is fetched keeps the client's
  \<^verbatim>\<open>Origin\<close> and \<^verbatim>\<open>Referer\<close>.
\<close>

theorem inherited_key_skips_rules:
  "map_of specialCases ''constructor'' = None
   \<and> buildRequest exampleEnvironment (exampleRequest ''/http%3A%2F%2Fconstructor%2F'' '''')
         ''http://constructor/''
       = Inr (''http://constructor/'',
              \<lparr>req_url = mkUrl ''http:'' ''constructor'' ''/'' '''', req_method = ''GET'',
               req_headers = [(''accept'', ''*/*''), (''origin'', ''https://proxy.example''),
                              (''referer'', ''https://proxy.example/'')],
               req_body = Null, req_redirect = ''manual''\<rparr>)
   \<and> headers_get ''Origin'' [(''accept'', ''*/*''), (''origin'', ''https://proxy.example''),
                              (''referer'', ''https://proxy.example/'')]
       = Some ''https://proxy.example''
   \<and> headers_get ''Referer'' [(''accept'', ''*/*''), (''origin'', ''https://proxy.example''),
                               (''referer'', ''https://proxy.example/'')]
       = Some ''https://proxy.example/''"
  by code_simp

section \<open>Links in HTML\<close>

lemma example_html_root:
  "handleHtmlContent exampleEnvironment
     \<lparr>res_status = 200, res_statusText = ''OK'',
      res_headers = [(''Content-Type'', ''text/html'')],
      res_body = Stream ''href=\"/x\"'', res_url = ''https://a.com/page''\<rparr>
     ''https:'' ''proxy.example'' ''https://a.com/page''
   = Inr ''href=\"/https%3A%2F%2Fa.com/x\"''"
  by code_simp

text \<open>
  C6. \<^verbatim>\<open>handleHtmlContent\<close> reads the body as text, takes the origin of the target URL,
  percent-encodes it, and applies the first substitution with it and then the second. The
  first substitution rewrites every occurrence of one of \<^verbatim>\<open>href\<close>, \<^verbatim>\<open>src\<close>, \<^verbatim>\<open>action\<close>, then
  \<^verbatim>\<open>=\<close>, a quote and \<^verbatim>\<open>/\<close>, not followed by another \<^verbatim>\<open>/\<close>: wherever it stands in the body,
  the encoded origin of the target and a \<^verbatim>\<open>/\<close> are put in after that \<^verbatim>\<open>/\<close>, and the text
  before and the text after are rewritten on their own. A body with no such occurrence is
  left as it is by this substitution. When the origin is not the empty string and the body
  holds no \<^verbatim>\<open>//\<close>, the second substitution changes nothing, and what \<^verbatim>\<open>handleHtmlContent\<close>
  returns is the result of the first. With the origin \<^verbatim>\<open>https://a.com\<close> it takes
  \<^verbatim>\<open>href="/x"\<close> to \<^verbatim>\<open>href="/https%3A%2F%2Fa.com/x"\<close>.
\<close>

theorem root_relative_rewrite:
  assumes "response_text env response = Inr t" and "newURL env actualUrlStr = Inr u"
  shows "handleHtmlContent env response proto hst actualUrlStr
           = Inr (rewriteProtocolRelative
                    (rewriteRootRelative (encodeURIComponent (origin u)) t))
   \<and> (a \<in> set attributeNames \<and> (q = CHR 0x22 \<or> q = CHR 0x27) \<and> \<not> startsWith rest ''/''
        \<and> t = pre @ a @ ''='' @ [q] @ ''/'' @ rest \<longrightarrow>
      rewriteRootRelative (encodeURIComponent (origin u)) t
        = rewriteRootRelative (encodeURIComponent (origin u)) pre
            @ a @ ''='' @ [q] @ ''/'' @ encodeURIComponent (origin u) @ ''/''
            @ rewriteRootRelative (encodeURIComponent (origin u)) rest)
   \<and> ((\<forall>pre a q rest. a \<in> set attributeNames \<and> (q = CHR 0x22 \<or> q = CHR 0x27)
           \<and> \<not> startsWith rest ''/'' \<longrightarrow> t \<noteq> pre @ a @ ''='' @ [q] @ ''/'' @ rest) \<longrightarrow>
        rewriteRootRelative (encodeURIComponent (origin u)) t = t)
   \<and> (origin u \<noteq> [] \<and> \<not> includesStr t ''//'' \<longrightarrow>
        handleHtmlContent env response proto hst actualUrlStr
          = Inr (rewriteRootRelative (encodeURIComponent (origin u)) t))
   \<and> encodeURIComponent ''https://a.com'' = ''https%3A%2F%2Fa.com''
   \<and> handleHtmlContent exampleEnvironment
         \<lparr>res_status = 200, res_statusText = ''OK'',
          res_headers = [(''Content-Type'', ''text/html'')],
          res_body = Stream ''href=\"/x\"'', res_url = ''https://a.com/page''\<rparr>
         ''https:'' ''proxy.example'' ''https://a.com/page''
       = Inr ''href=\"/https%3A%2F%2Fa.com/x\"''"
proof -
  let ?enc = "encodeURIComponent (origin u)"
  have 0: "handleHtmlContent env response proto hst actualUrlStr
           = Inr (rewriteProtocolRelative (rewriteRootRelative ?enc t))"
    by (rule handleHtmlContent_eq [OF assms])
  have 1: "a \<in> set attributeNames \<and> (q = CHR 0x22 \<or> q = CHR 0x27) \<and> \<not> startsWith rest ''/''
        \<and> t = pre @ a @ ''='' @ [q] @ ''/'' @ rest \<longrightarrow>
      rewriteRootRelative ?enc t
        = rewriteRootRelative ?enc pre @ a @ ''='' @ [q] @ ''/'' @ ?enc @ ''/''
            @ rewriteRootRelative ?enc rest"
  proof (intro impI, elim conjE)
    assume h: "a \<in> set attributeNames" "q = CHR 0x22 \<or> q = CHR 0x27" "\<not> startsWith rest ''/''"
      and e: "t = pre @ a @ ''='' @ [q] @ ''/'' @ rest"
    show "rewriteRootRelative ?enc t
        = rewriteRootRelative ?enc pre @ a @ ''='' @ [q] @ ''/'' @ ?enc @ ''/''
            @ rewriteRootRelative ?enc rest"
      unfolding e by (rule rewriteRootRelative_occurrence [OF h])
  qed
  have 2: "(\<forall>pre a q rest. a \<in> set attributeNames \<and> (q = CHR 0x22 \<or> q = CHR 0x27)
           \<and> \<not> startsWith rest ''/'' \<longrightarrow> t \<noteq> pre @ a @ ''='' @ [q] @ ''/'' @ rest) \<longrightarrow>
        rewriteRootRelative ?enc t = t"
    using rewriteRootRelative_unchanged [of t ?enc] by blast
  have 3: "origin u \<noteq> [] \<and> \<not> includesStr t ''//'' \<longrightarrow>
        handleHtmlContent env response proto hst actualUrlStr = Inr (rewriteRootRelative ?enc t)"
    using handleHtmlContent_no_slashes [OF assms] by blast
  have 4: "encodeURIComponent ''https://a.com'' = ''https%3A%2F%2Fa.com''"
    by code_simp
  show ?thesis
    using 0 1 2 3 4 example_html_root by blast
qed

theorem root_relative_rewrite_witness:
  "handleHtmlContent exampleEnvironment
       \<lparr>res_status = 200, res_statusText = ''OK'',
        res_headers = [(''Content-Type'', ''text/html'')],
        res_body = Stream ''<a href=\"/x\">'', res_url = ''https://a.com/page''\<rparr>
       ''https:'' ''proxy.example'' ''https://a.com/page''
     = Inr ''<a href=\"/https%3A%2F%2Fa.com/x\">''
   \<and> handleHtmlContent exampleEnvironment
       \<lparr>res_status = 200, res_statusText = ''OK'',
        res_headers = [(''Content-Type'', ''text/html'')],
        res_body = Stream ''<a rel=\"/x\">'', res_url = ''https://a.com/page''\<rparr>
       ''https:'' ''proxy.example'' ''https://a.com/page''
     = Inr ''<a rel=\"/x\">''"
proof -
  let ?enc = "''https%3A%2F%2Fa.com''"
  let ?u = "mkUrl ''https:'' ''a.com'' ''/page'' ''''"
  let ?r1 = "\<lparr>res_status = 200, res_statusText = ''OK'',
        res_headers = [(''Content-Type'', ''text/html'')],
        res_body = Stream ''<a href=\"/x\">'', res_url = ''https://a.com/page''\<rparr>"
  let ?r2 = "\<lparr>res_status = 200, res_statusText = ''OK'',
        res_headers = [(''Content-Type'', ''text/html'')],
        res_body = Stream ''<a rel=\"/x\">'', res_url = ''https://a.com/page''\<rparr>"
  have t1: "response_text exampleEnvironment ?r1 = Inr ''<a href=\"/x\">''"
    by code_simp
  have t2: "response_text exampleEnvironment ?r2 = Inr ''<a rel=\"/x\">''"
    by code_simp
  have u: "newURL exampleEnvironment ''https://a.com/page'' = Inr ?u"
    by code_simp
  have enc: "encodeURIComponent (origin ?u) = ?enc"
    by code_simp
  have o: "origin ?u \<noteq> []"
    by (simp add: mkUrl_def)
  have s1: "\<not> includesStr ''<a href=\"/x\">'' ''//''"
    by code_simp
  have s2: "\<not> includesStr ''<a rel=\"/x\">'' ''//''"
    by code_simp
  have a: "''href'' \<in> set attributeNames"
    by (simp add: attributeNames_def)
  have q: "CHR 0x22 = CHR 0x22 \<or> CHR 0x22 = CHR 0x27"
    by simp
  have r: "\<not> startsWith ''x\">'' ''/''"
    by (simp add: startsWith_def)
  have e: "''<a href=\"/x\">'' = ''<a '' @ ''href'' @ ''='' @ [CHR 0x22] @ ''/'' @ ''x\">''"
    by simp
  have p: "rewriteRootRelative ?enc ''<a '' = ''<a ''"
    by code_simp
  have s: "rewriteRootRelative ?enc ''x\">'' = ''x\">''"
    by code_simp
  note w1 = root_relative_rewrite [OF t1 u, of "''https:''" "''proxy.example''" "''href''" "CHR 0x22"
      "''x\">''" "''<a ''", unfolded enc]
  have "rewriteRootRelative ?enc ''<a href=\"/x\">''
       = rewriteRootRelative ?enc ''<a '' @ ''href'' @ ''='' @ [CHR 0x22] @ ''/'' @ ?enc @ ''/''
           @ rewriteRootRelative ?enc ''x\">''"
    by (rule w1 [THEN conjunct2, THEN conjunct1, rule_format]) (intro conjI a q r e)
  then have x1: "rewriteRootRelative ?enc ''<a href=\"/x\">'' = ''<a href=\"/https%3A%2F%2Fa.com/x\">''"
    unfolding p s by simp
  have y1: "handleHtmlContent exampleEnvironment ?r1 ''https:'' ''proxy.example'' ''https://a.com/page''
      = Inr (rewriteRootRelative ?enc ''<a href=\"/x\">'')"
    by (rule w1 [THEN conjunct2, THEN conjunct2, THEN conjunct2, THEN conjunct1, rule_format])
      (intro conjI o s1)
  have n: "\<forall>pre a q rest. a \<in> set attributeNames \<and> (q = CHR 0x22 \<or> q = CHR 0x27)
           \<and> \<not> startsWith rest ''/'' \<longrightarrow> ''<a rel=\"/x\">'' \<noteq> pre @ a @ ''='' @ [q] @ ''/'' @ rest"
  proof (intro allI impI)
    fix pre a q rest
    assume h: "a \<in> set attributeNames \<and> (q = CHR 0x22 \<or> q = CHR 0x27) \<and> \<not> startsWith rest ''/''"
    show "''<a rel=\"/x\">'' \<noteq> pre @ a @ ''='' @ [q] @ ''/'' @ rest"
    proof
      assume e: "''<a rel=\"/x\">'' = pre @ a @ ''='' @ [q] @ ''/'' @ rest"
      have "rewriteRootRelative ?enc (pre @ a @ ''='' @ [q] @ ''/'' @ rest)
        = rewriteRootRelative ?enc pre @ a @ ''='' @ [q] @ ''/'' @ ?enc @ ''/''
            @ rewriteRootRelative ?enc rest"
        using h rewriteRootRelative_occurrence by blast
      then have "CHR ''%'' \<in> set (rewriteRootRelative ?enc (pre @ a @ ''='' @ [q] @ ''/'' @ rest))"
        by simp
      moreover have "rewriteRootRelative ?enc ''<a rel=\"/x\">'' = ''<a rel=\"/x\">''"
        by code_simp
      ultimately show False
        unfolding e [symmetric] by simp
    qed
  qed
  note w2 = root_relative_rewrite [OF t2 u, of "''https:''" "''proxy.example''", unfolded enc]
  have x2: "rewriteRootRelative ?enc ''<a rel=\"/x\">'' = ''<a rel=\"/x\">''"
    using w2 [THEN conjunct2, THEN conjunct2, THEN conjunct1] n by blast
  have y2: "handleHtmlContent exampleEnvironment ?r2 ''https:'' ''proxy.example'' ''https://a.com/page''
      = Inr (rewriteRootRelative ?enc ''<a rel=\"/x\">'')"
    by (rule w2 [THEN conjunct2, THEN conjunct2, THEN conjunct2, THEN conjunct1, rule_format])
      (intro conjI o s2)
  show ?thesis
    unfolding y1 y2 x1 x2 by simp
qed

text \<open>
  C7, as amended. The second substitution of \<^verbatim>\<open>handleHtmlContent\<close> rewrites an occurrence of
  one of \<^verbatim>\<open>href\<close>, \<^verbatim>\<open>src\<close>, \<^verbatim>\<open>action\<close>, then \<^verbatim>\<open>=\<close>, a quote, \<^verbatim>\<open>//\<close> and a host (the
  longest run, not empty, of characters other than \<^verbatim>\<open>/\<close> and the two quotes), when the text
  before it does not end inside such a run after \<^verbatim>\<open>//\<close>: only \<^verbatim>\<open>//\<close> and the host are
  replaced, by \<^verbatim>\<open>/\<close> and the percent-encoding of a URL that starts with \<^verbatim>\<open>https://\<close>; the
  attribute, the quote and all that follows the host stay, and the text before and the
  text after are rewritten on their own.
\<close>

theorem protocol_relative_rewrite:
  assumes "a \<in> set attributeNames" and "q = CHR 0x22 \<or> q = CHR 0x27"
    and "h \<noteq> []" and "\<forall>c\<in>set h. c \<noteq> CHR ''/'' \<and> c \<noteq> CHR 0x22 \<and> c \<noteq> CHR 0x27"
    and "rest = [] \<or> hd rest = CHR ''/'' \<or> hd rest = CHR 0x22 \<or> hd rest = CHR 0x27"
    and "\<not> (\<exists>x v. pre = x @ ''//'' @ v
               \<and> (\<forall>c\<in>set v. c \<noteq> CHR ''/'' \<and> c \<noteq> CHR 0x22 \<and> c \<noteq> CHR 0x27))"
  shows "\<exists>u. rewriteProtocolRelative (pre @ a @ ''='' @ [q] @ ''//'' @ h @ rest)
             = rewriteProtocolRelative pre @ a @ ''='' @ [q] @ ''/''
                 @ encodeURIComponent (''https://'' @ u) @ rewriteProtocolRelative rest"
proof -
  have 4: "\<forall>c\<in>set h. hostChar c"
    using assms(4) by (simp add: hostChar_def)
  have 5: "rest = [] \<or> \<not> hostChar (hd rest)"
    using assms(5) by (auto simp: hostChar_def)
  have 6: "\<not> (\<exists>x v. pre = x @ ''//'' @ v \<and> (\<forall>c\<in>set v. hostChar c))"
    using assms(6) by (simp add: hostChar_def)
  show ?thesis
    using rewriteProtocolRelative_occurrence [OF assms(1-3) 4 5 6] by blast
qed

theorem protocol_relative_rewrite_witness:
  "\<exists>u. rewriteProtocolRelative ''<img src=\"//cdn.example.com/lib.js\">''
         = ''<img src=\"/'' @ encodeURIComponent (''https://'' @ u) @ ''/lib.js\">''"
proof -
  have a: "''src'' \<in> set attributeNames"
    by (simp add: attributeNames_def)
  have q: "CHR 0x22 = CHR 0x22 \<or> CHR 0x22 = CHR 0x27"
    by simp
  have h: "''cdn.example.com'' \<noteq> []"
    by simp
  have c: "\<forall>c\<in>set ''cdn.example.com''. c \<noteq> CHR ''/'' \<and> c \<noteq> CHR 0x22 \<and> c \<noteq> CHR 0x27"
    by simp
  have r: "''/lib.js\">'' = [] \<or> hd ''/lib.js\">'' = CHR ''/'' \<or> hd ''/lib.js\">'' = CHR 0x22
             \<or> hd ''/lib.js\">'' = CHR 0x27"
    by simp
  have p: "\<not> (\<exists>x v. ''<img '' = x @ ''//'' @ v
               \<and> (\<forall>c\<in>set v. c \<noteq> CHR ''/'' \<and> c \<noteq> CHR 0x22 \<and> c \<noteq> CHR 0x27))"
  proof
    assume "\<exists>x v. ''<img '' = x @ ''//'' @ v
               \<and> (\<forall>c\<in>set v. c \<noteq> CHR ''/'' \<and> c \<noteq> CHR 0x22 \<and> c \<noteq> CHR 0x27)"
    then obtain x v where "''<img '' = x @ ''//'' @ v"
      by blast
    then have "set ''<img '' = set (x @ ''//'' @ v)"
      by simp
    then have "CHR ''/'' \<in> set ''<img ''"
      by simp
    then show False by simp
  qed
  have e1: "rewriteProtocolRelative ''<img '' = ''<img ''"
    by code_simp
  have e2: "rewriteProtocolRelative ''/lib.js\">'' = ''/lib.js\">''"
    by code_simp
  obtain u where "rewriteProtocolRelative
        (''<img '' @ ''src'' @ ''='' @ [CHR 0x22] @ ''//'' @ ''cdn.example.com'' @ ''/lib.js\">'')
      = rewriteProtocolRelative ''<img '' @ ''src'' @ ''='' @ [CHR 0x22] @ ''/''
          @ encodeURIComponent (''https://'' @ u) @ rewriteProtocolRelative ''/lib.js\">''"
    using protocol_relative_rewrite [OF a q h c r p] by blast
  then have "rewriteProtocolRelative ''<img src=\"//cdn.example.com/lib.js\">''
         = ''<img src=\"/'' @ encodeURIComponent (''https://'' @ u) @ ''/lib.js\">''"
    unfolding e1 e2 by simp
  then show ?thesis by blast
qed

text \<open>
  C7 without the amendment fails on \<^verbatim>\<open>src="//cdn.example.com"\<close> and on
  \<^verbatim>\<open>src="//cdn.example.com/lib.js"\<close>: what is encoded is \<^verbatim>\<open>https://src\<close>, made of the name of
  the attribute and not of the host, and \<^verbatim>\<open>/lib.js\<close> after the host is kept, not dropped.
  And an occurrence inside the host of an earlier match is not rewritten: in
  \<^verbatim>\<open>href="//asrc="//b"\<close> the match of \<^verbatim>\<open>href\<close> runs up to the second quote.
\<close>

theorem protocol_relative_host_lost:
  "rewriteProtocolRelative ''src=\"//cdn.example.com\"'' = ''src=\"/https%3A%2F%2Fsrc\"''
   \<and> ''/'' @ encodeURIComponent ''https://cdn.example.com'' = ''/https%3A%2F%2Fcdn.example.com''
   \<and> rewriteProtocolRelative ''src=\"//cdn.example.com\"''
       \<noteq> ''src=\"/https%3A%2F%2Fcdn.example.com\"''
   \<and> handleHtmlContent exampleEnvironment
         \<lparr>res_status = 200, res_statusText = ''OK'',
          res_headers = [(''Content-Type'', ''text/html'')],
          res_body = Stream ''<img src=\"//cdn.example.com/lib.js\">'',
          res_url = ''https://a.com/page''\<rparr>
         ''https:'' ''proxy.example'' ''https://a.com/page''
       = Inr ''<img src=\"/https%3A%2F%2Fsrc/lib.js\">''
   \<and> handleHtmlContent exampleEnvironment
         \<lparr>res_status = 200, res_statusText = ''OK'',
          res_headers = [(''Content-Type'', ''text/html'')],
          res_body = Stream ''src=\"//cdn.example.com\"'',
          res_url = ''https://a.com/page''\<rparr>
         ''https:'' ''proxy.example'' ''https://a.com/page''
       = Inr ''src=\"/https%3A%2F%2Fsrc\"''
   \<and> rewriteProtocolRelative ''href=\"//asrc=\"//b\"'' = ''href=\"/https%3A%2F%2Fhref\"//b\"''"
proof -
  have 6: "rewriteProtocolRelative ''href=\"//asrc=\"//b\"'' = ''href=\"/https%3A%2F%2Fhref\"//b\"''"
    by code_simp
  have 1: "rewriteProtocolRelative ''src=\"//cdn.example.com\"'' = ''src=\"/https%3A%2F%2Fsrc\"''"
    by code_simp
  have 2: "''/'' @ encodeURIComponent ''https://cdn.example.com'' = ''/https%3A%2F%2Fcdn.example.com''"
    by code_simp
  have 3: "rewriteProtocolRelative ''src=\"//cdn.example.com\"''
       \<noteq> ''src=\"/https%3A%2F%2Fcdn.example.com\"''"
    unfolding 1 by simp
  have 4: "handleHtmlContent exampleEnvironment
         \<lparr>res_status = 200, res_statusText = ''OK'',
          res_headers = [(''Content-Type'', ''text/html'')],
          res_body = Stream ''<img src=\"//cdn.example.com/lib.js\">'',
          res_url = ''https://a.com/page''\<rparr>
         ''https:'' ''proxy.example'' ''https://a.com/page''
       = Inr ''<img src=\"/https%3A%2F%2Fsrc/lib.js\">''"
    by code_simp
  have 5: "handleHtmlContent exampleEnvironment
         \<lparr>res_status = 200, res_statusText = ''OK'',
          res_headers = [(''Content-Type'', ''text/html'')],
          res_body = Stream ''src=\"//cdn.example.com\"'',
          res_url = ''https://a.com/page''\<rparr>
         ''https:'' ''proxy.example'' ''https://a.com/page''
       = Inr ''src=\"/https%3A%2F%2Fsrc\"''"
    by code_simp
  show ?thesis
    using 1 2 3 4 5 6 by blast
qed

section \<open>Cookies\<close>

lemma fold_append_cookies:
  "fold (\<lambda>cookie hs. headers_append name (f cookie) hs) cookies hs
     = hs @ map (\<lambda>cookie. (name, f cookie)) cookies"
  by (induction cookies arbitrary: hs) (simp_all add: headers_append_def)

lemma handleSetCookieHeaders_eq:
  "handleSetCookieHeaders response
     = headers_delete ''Set-Cookie'' (res_headers response)
       @ map (\<lambda>cookie. (''Set-Cookie'', rewriteCookie cookie))
           (headers_getAll ''Set-Cookie'' (res_headers response))"
  by (simp add: handleSetCookieHeaders_def Let_def fold_append_cookies)

lemma getAll_own: "headers_getAll name (map (\<lambda>x. (name, f x)) xs) = map f xs"
  by (induction xs) (simp_all add: headers_getAll_def sameName_def)

lemma delete_own: "headers_delete name (map (\<lambda>x. (name, f x)) xs) = []"
  by (induction xs) (simp_all add: headers_delete_def sameName_def)

lemma getAll_concat:
  "headers_getAll name (a @ b) = headers_getAll name a @ headers_getAll name b"
  by (simp add: headers_getAll_def)

lemma delete_concat:
  "headers_delete name (a @ b) = headers_delete name a @ headers_delete name b"
  by (simp add: headers_delete_def)

lemma cookies_one_to_one:
  "headers_getAll ''Set-Cookie'' (handleSetCookieHeaders response)
     = map rewriteCookie (headers_getAll ''Set-Cookie'' (res_headers response))"
proof -
  have "headers_getAll ''Set-Cookie'' (headers_delete ''Set-Cookie'' (res_headers response)) = []"
    by (simp add: getAll_delete sameName_def)
  then show ?thesis
    by (simp only: handleSetCookieHeaders_eq getAll_concat getAll_own append_Nil)
qed

lemma cookies_other_headers:
  "headers_delete ''Set-Cookie'' (handleSetCookieHeaders response)
     = headers_delete ''Set-Cookie'' (res_headers response)"
  by (simp only: handleSetCookieHeaders_eq delete_concat delete_own delete_delete_same append_Nil2)

lemma rewriteCookie_no_domain:
  assumes "\<not> includesStr (toLowerCase cookie) ''domain=''"
  shows "rewriteCookie cookie
       = cookie @ ''; Domain='' @ PROXY_DOMAIN
           @ (if testCI ''path='' cookie then [] else ''; Path=/'')"
  using assms path_after_append [of cookie]
  by (simp add: rewriteCookie_def Let_def)

lemma rewriteCookie_domain:
  assumes "toLowerCase d = ''domain=''" and "\<not> includesStr (toLowerCase pre) ''domain=''"
    and "v \<noteq> []" and "CHR '';'' \<notin> set v" and "rest = [] \<or> hd rest = CHR '';''"
  shows "rewriteCookie (pre @ d @ v @ rest)
       = pre @ ''domain='' @ PROXY_DOMAIN @ rest
           @ (if testCI ''path='' (pre @ d @ rest) then [] else ''; Path=/'')"
proof -
  have "toLowerCase (pre @ d @ v @ rest)
      = toLowerCase pre @ ''domain='' @ toLowerCase (v @ rest)"
    by (simp only: toLowerCase_append assms(1))
  then have i: "includesStr (toLowerCase (pre @ d @ v @ rest)) ''domain=''"
    unfolding includesStr_iff by blast
  have r: "replaceDomain (pre @ d @ v @ rest) = pre @ ''domain='' @ PROXY_DOMAIN @ rest"
    by (rule replaceDomain_first [OF assms])
  have "toLowerCase (pre @ ''domain='' @ PROXY_DOMAIN @ rest) = toLowerCase (pre @ d @ rest)"
    by (simp only: PROXY_DOMAIN_def toLowerCase_append toLowerCase_literals(3) assms(1) append_Nil)
  then have p: "testCI ''path='' (pre @ ''domain='' @ PROXY_DOMAIN @ rest)
      = testCI ''path='' (pre @ d @ rest)"
    by (simp only: testCI_path)
  show ?thesis
    unfolding rewriteCookie_def Let_def using i by (simp only: r p if_True) simp
qed

lemma rewriteCookie_path:
  assumes "\<not> testCI ''path='' cookie"
  shows "\<exists>m. rewriteCookie cookie = m @ ''; Path=/''"
proof (cases "includesStr (toLowerCase cookie) ''domain=''")
  case True
  have "\<not> testCI ''path='' (replaceDomain cookie)"
    by (rule path_kept [OF assms])
  then have "rewriteCookie cookie = replaceDomain cookie @ ''; Path=/''"
    using True by (simp add: rewriteCookie_def Let_def)
  then show ?thesis by blast
next
  case False
  have "rewriteCookie cookie = (cookie @ ''; Domain='' @ PROXY_DOMAIN) @ ''; Path=/''"
    using rewriteCookie_no_domain [OF False] assms by simp
  then show ?thesis by blast
qed

lemma rewriteCookie_carries:
  "includesStr (toLowerCase (rewriteCookie cookie)) ''domain=''
   \<and> testCI ''path='' (rewriteCookie cookie)"
proof -
  define m where "m = (if includesStr (toLowerCase cookie) ''domain='' then replaceDomain cookie
             else cookie @ ''; Domain='' @ PROXY_DOMAIN)"
  have r: "rewriteCookie cookie = (if \<not> testCI ''path='' m then m @ ''; Path=/'' else m)"
    by (simp add: rewriteCookie_def Let_def m_def)
  have d: "includesStr (toLowerCase m) ''domain=''"
  proof (cases "includesStr (toLowerCase cookie) ''domain=''")
    case True
    then show ?thesis using domain_kept [OF True] by (simp add: m_def)
  next
    case False
    have "toLowerCase (cookie @ ''; Domain='' @ PROXY_DOMAIN)
        = toLowerCase cookie @ ''; domain='' @ toLowerCase PROXY_DOMAIN"
      by (simp only: toLowerCase_append toLowerCase_literals(1))
    moreover have "''; domain='' = ''; '' @ ''domain=''"
      by simp
    ultimately have "toLowerCase (cookie @ ''; Domain='' @ PROXY_DOMAIN)
        = (toLowerCase cookie @ ''; '') @ ''domain='' @ toLowerCase PROXY_DOMAIN"
      by (simp only: append_assoc)
    then have "includesStr (toLowerCase (cookie @ ''; Domain='' @ PROXY_DOMAIN)) ''domain=''"
      unfolding includesStr_iff by blast
    then show ?thesis using False by (simp add: m_def)
  qed
  have d': "includesStr (toLowerCase (m @ ''; Path=/'')) ''domain=''"
    using includesStr_mono [OF d, of "[]" "toLowerCase ''; Path=/''"]
    by (simp only: toLowerCase_append append_Nil)
  have "toLowerCase (m @ ''; Path=/'') = toLowerCase m @ ''; path=/''"
    by (simp only: toLowerCase_append toLowerCase_literals(2))
  moreover have "''; path=/'' = ''; '' @ ''path='' @ ''/''"
    by simp
  ultimately have "toLowerCase (m @ ''; Path=/'') = (toLowerCase m @ ''; '') @ ''path='' @ ''/''"
    by (simp only: append_assoc)
  then have "includesStr (toLowerCase (m @ ''; Path=/'')) ''path=''"
    unfolding includesStr_iff by blast
  then have p': "testCI ''path='' (m @ ''; Path=/'')"
    by (simp only: testCI_path)
  show ?thesis
    unfolding r using d d' p' by simp
qed


lemma matchDomain_inside:
  assumes "toLowerCase d = ''domain=''" and "rest = [] \<or> hd rest = CHR '';''"
    and "d = a @ c # b"
  shows "matchDomain (c # b @ rest) = None"
proof (cases a)
  case Nil
  have "length d = 7"
    by (rule domain_length [OF assms(1)])
  then have "drop 7 (c # b @ rest) = rest"
    using assms(3) Nil by simp
  moreover have "takeWhile (\<lambda>x. x \<noteq> CHR '';'') rest = []"
    using assms(2) by (cases rest) auto
  ultimately show ?thesis
    by (simp only: matchDomain_empty_value)
next
  case (Cons x xs)
  show ?thesis
  proof (rule matchDomain_None, rule notI)
    assume e: "toLowerCase (take 7 (c # b @ rest)) = ''domain=''"
    have "toLowerCase (take 7 (c # b @ rest)) = toLowerCase_char c # toLowerCase (take 6 (b @ rest))"
      by (simp add: toLowerCase_def)
    then have 1: "toLowerCase_char c = CHR ''d''"
      using e by simp
    have "''domain='' = toLowerCase a @ toLowerCase (c # b)"
      using assms(1,3) by (simp only: toLowerCase_append)
    moreover have "toLowerCase a \<noteq> []" "toLowerCase (c # b) \<noteq> []"
      using Cons by (simp_all add: toLowerCase_def)
    ultimately have "hd (toLowerCase (c # b)) \<in> set (tl ''domain='')"
      by (rule hd_suffix_in_tl)
    then show False
      using 1 by (simp add: toLowerCase_def)
  qed
qed

lemma replaceDomain_rest:
  assumes "rest = [] \<or> hd rest = CHR '';''"
  shows "replaceDomain rest = [] \<or> hd (replaceDomain rest) = CHR '';''"
proof (cases rest)
  case Nil
  then show ?thesis by (simp add: replaceDomain_def)
next
  case (Cons x xs)
  then have x: "x = CHR '';''"
    using assms by simp
  have "toLowerCase (take 7 (x # xs)) = toLowerCase_char x # toLowerCase (take 6 xs)"
    by (simp add: toLowerCase_def)
  then have "toLowerCase (take 7 (x # xs)) \<noteq> ''domain=''"
    using toLowerCase_literals(4) by (simp add: x)
  then have "matchDomain (x # xs) = None"
    by (rule matchDomain_None)
  then show ?thesis
    by (simp add: replaceDomain_def Cons x)
qed

lemma rewriteCookie_empty_domain:
  assumes "toLowerCase d = ''domain=''" and "\<not> includesStr (toLowerCase pre) ''domain=''"
    and "rest = [] \<or> hd rest = CHR '';''"
  shows "\<exists>rest'. rewriteCookie (pre @ d @ rest) = pre @ d @ PROXY_DOMAIN @ rest'
           \<and> (rest' = [] \<or> hd rest' = CHR '';'')"
proof -
  have "toLowerCase (pre @ d @ rest) = toLowerCase pre @ ''domain='' @ toLowerCase rest"
    by (simp only: toLowerCase_append assms(1))
  then have i: "includesStr (toLowerCase (pre @ d @ rest)) ''domain=''"
    unfolding includesStr_iff by blast
  have "replaceFirst matchDomain (pre @ d @ rest) = pre @ replaceFirst matchDomain (d @ rest)"
    by (rule replaceFirst_skip) (rule matchDomain_before [OF assms(1,2)])
  moreover have "replaceFirst matchDomain (d @ rest) = d @ replaceFirst matchDomain rest"
    by (rule replaceFirst_skip) (rule matchDomain_inside [OF assms(1,3)])
  ultimately have r: "replaceDomain (pre @ d @ rest) = pre @ d @ replaceDomain rest"
    by (simp add: replaceDomain_def)
  define t where "t = replaceDomain rest"
  have t: "t = [] \<or> hd t = CHR '';''"
    unfolding t_def by (rule replaceDomain_rest [OF assms(3)])
  define u where "u = t @ (if \<not> testCI ''path='' (pre @ d @ t) then ''; Path=/'' else [])"
  have "rewriteCookie (pre @ d @ rest) = pre @ d @ PROXY_DOMAIN @ u"
    using i by (simp add: rewriteCookie_def Let_def r t_def u_def PROXY_DOMAIN_def)
  moreover have "u = [] \<or> hd u = CHR '';''"
    using t by (cases t) (auto simp: u_def)
  ultimately show ?thesis by blast
qed

text \<open>
  C2. The \<^verbatim>\<open>Set-Cookie\<close> values of the rewritten headers are those of the origin response,
  each rewritten on its own, in the same order and number; the other headers are as they
  were. A cookie whose first \<^verbatim>\<open>domain=\<close> (in any case) has a value \<open>v\<close>, up to the next
  \<^verbatim>\<open>;\<close>, gets \<^verbatim>\<open>domain=\<close> and the configured domain in place of it, and what stands before
  and after is kept; when that value is empty it stays empty, as the configured domain is.
  A cookie with no \<^verbatim>\<open>domain=\<close> gets \<^verbatim>\<open>; Domain=\<close> and the configured domain at its end. A
  cookie with no \<^verbatim>\<open>path=\<close> (in any case) gets \<^verbatim>\<open>; Path=/\<close> at its end, and one that keeps a
  \<^verbatim>\<open>path=\<close> outside the replaced value gets none. Every rewritten cookie has a \<^verbatim>\<open>domain=\<close>
  and a \<^verbatim>\<open>path=\<close>.
\<close>

theorem cookies_rewritten:
  "headers_getAll ''Set-Cookie'' (handleSetCookieHeaders response)
     = map rewriteCookie (headers_getAll ''Set-Cookie'' (res_headers response))
   \<and> headers_delete ''Set-Cookie'' (handleSetCookieHeaders response)
       = headers_delete ''Set-Cookie'' (res_headers response)
   \<and> (toLowerCase d = ''domain='' \<and> \<not> includesStr (toLowerCase pre) ''domain='' \<and> v \<noteq> []
        \<and> CHR '';'' \<notin> set v \<and> (rest = [] \<or> hd rest = CHR '';'') \<longrightarrow>
      rewriteCookie (pre @ d @ v @ rest)
        = pre @ ''domain='' @ PROXY_DOMAIN @ rest
            @ (if testCI ''path='' (pre @ d @ rest) then [] else ''; Path=/''))
   \<and> (toLowerCase d = ''domain='' \<and> \<not> includesStr (toLowerCase pre) ''domain=''
        \<and> (rest = [] \<or> hd rest = CHR '';'') \<longrightarrow>
      (\<exists>rest'. rewriteCookie (pre @ d @ rest) = pre @ d @ PROXY_DOMAIN @ rest'
           \<and> (rest' = [] \<or> hd rest' = CHR '';'')))
   \<and> (\<not> includesStr (toLowerCase cookie) ''domain='' \<longrightarrow>
      rewriteCookie cookie
        = cookie @ ''; Domain='' @ PROXY_DOMAIN
            @ (if testCI ''path='' cookie then [] else ''; Path=/''))
   \<and> (\<not> testCI ''path='' cookie \<longrightarrow> (\<exists>m. rewriteCookie cookie = m @ ''; Path=/''))
   \<and> includesStr (toLowerCase (rewriteCookie cookie)) ''domain=''
   \<and> testCI ''path='' (rewriteCookie cookie)"
  using cookies_one_to_one [of response] cookies_other_headers [of response]
    rewriteCookie_domain [of d pre v rest] rewriteCookie_empty_domain [of d pre rest]
    rewriteCookie_no_domain [of cookie] rewriteCookie_path [of cookie]
    rewriteCookie_carries [of cookie]
  by blast


theorem cookies_rewritten_witness:
  "headers_getAll ''Set-Cookie''
     (handleSetCookieHeaders
        \<lparr>res_status = 200, res_statusText = ''OK'',
         res_headers = [(''Content-Type'', ''text/html''), (''Set-Cookie'', ''sid=1''),
                        (''Set-Cookie'', ''t=2; Domain=a.com; Path=/app'')],
         res_body = Null :: string body, res_url = ''https://a.com/page''\<rparr>)
     = [''sid=1; Domain=; Path=/'', ''t=2; domain=; Path=/app'']
   \<and> rewriteCookie ''sid=1'' = ''sid=1; Domain=; Path=/''
   \<and> rewriteCookie ''t=2; Domain=a.com; Path=/app'' = ''t=2; domain=; Path=/app''
   \<and> rewriteCookie ''t=2; Domain='' = ''t=2; Domain=; Path=/''"
proof -
  let ?r = "\<lparr>res_status = 200, res_statusText = ''OK'',
         res_headers = [(''Content-Type'', ''text/html''), (''Set-Cookie'', ''sid=1''),
                        (''Set-Cookie'', ''t=2; Domain=a.com; Path=/app'')],
         res_body = Null :: string body, res_url = ''https://a.com/page''\<rparr>"
  note w = cookies_rewritten [of ?r "''Domain=''" "''t=2; ''" "''a.com''" "''; Path=/app''" "''sid=1''"]
  note e = cookies_rewritten [of ?r "''Domain=''" "''t=2; ''" "''a.com''" "[]" "''sid=1''"]
  have g: "headers_getAll ''Set-Cookie'' (res_headers ?r) = [''sid=1'', ''t=2; Domain=a.com; Path=/app'']"
    by code_simp
  have h1: "toLowerCase ''Domain='' = ''domain=''"
    by code_simp
  have h2: "\<not> includesStr (toLowerCase ''t=2; '') ''domain=''"
    by code_simp
  have h3: "''a.com'' \<noteq> []" "CHR '';'' \<notin> set ''a.com''" "''; Path=/app'' = [] \<or> hd ''; Path=/app'' = CHR '';''"
    by simp_all
  have h4: "testCI ''path='' (''t=2; '' @ ''Domain='' @ ''; Path=/app'')"
    by code_simp
  have h5: "\<not> includesStr (toLowerCase ''sid=1'') ''domain=''"
    by code_simp
  have h6: "\<not> testCI ''path='' ''sid=1''"
    by code_simp
  have a: "rewriteCookie (''t=2; '' @ ''Domain='' @ ''a.com'' @ ''; Path=/app'')
      = ''t=2; '' @ ''domain='' @ PROXY_DOMAIN @ ''; Path=/app''
          @ (if testCI ''path='' (''t=2; '' @ ''Domain='' @ ''; Path=/app'') then [] else ''; Path=/'')"
    by (rule w [THEN conjunct2, THEN conjunct2, THEN conjunct1, rule_format])
      (intro conjI h1 h2 h3)
  have a': "rewriteCookie ''t=2; Domain=a.com; Path=/app'' = ''t=2; domain=; Path=/app''"
    using a h4 by (simp add: PROXY_DOMAIN_def)
  have b: "rewriteCookie ''sid=1''
      = ''sid=1'' @ ''; Domain='' @ PROXY_DOMAIN @ (if testCI ''path='' ''sid=1'' then [] else ''; Path=/'')"
    by (rule w [THEN conjunct2, THEN conjunct2, THEN conjunct2, THEN conjunct2, THEN conjunct1,
          rule_format, OF h5])
  have b': "rewriteCookie ''sid=1'' = ''sid=1; Domain=; Path=/''"
    using b h6 by (simp add: PROXY_DOMAIN_def)
  have c: "headers_getAll ''Set-Cookie'' (handleSetCookieHeaders ?r)
     = map rewriteCookie (headers_getAll ''Set-Cookie'' (res_headers ?r))"
    by (rule w [THEN conjunct1])
  have h7: "[] = [] \<or> hd [] = CHR '';''"
    by simp
  have "\<exists>rest'. rewriteCookie (''t=2; '' @ ''Domain='' @ []) = ''t=2; '' @ ''Domain='' @ PROXY_DOMAIN @ rest'
           \<and> (rest' = [] \<or> hd rest' = CHR '';'')"
    by (rule e [THEN conjunct2, THEN conjunct2, THEN conjunct2, THEN conjunct1, rule_format])
      (intro conjI h1 h2 h7)
  then obtain rest' where d: "rewriteCookie ''t=2; Domain='' = ''t=2; Domain='' @ rest'"
    by (auto simp: PROXY_DOMAIN_def)
  have "rewriteCookie ''t=2; Domain='' = ''t=2; Domain=; Path=/''"
    by code_simp
  then show ?thesis
    using a' b' c d unfolding g by simp
qed

text \<open>
  On the two branches that build the answer from the rewritten headers, the rewritten
  cookies reach the client; on the redirect branch they do not (C10).
\<close>

lemma cookie_names:
  "\<not> sameName ''Set-Cookie'' ''Content-Length''"
  "\<not> sameName ''Set-Cookie'' ''Cache-Control''"
  "\<not> sameName ''Set-Cookie'' ''Access-Control-Allow-Origin''"
  "\<not> sameName ''Set-Cookie'' ''Access-Control-Allow-Methods''"
  "\<not> sameName ''Set-Cookie'' ''Access-Control-Allow-Headers''"
  by code_simp+

lemma cookies_after_finalizer:
  "headers_getAll ''Set-Cookie'' (setCorsHeaders (setNoCacheHeaders hs))
     = headers_getAll ''Set-Cookie'' hs"
  unfolding setCorsHeaders_def setNoCacheHeaders_def
  using cookie_names by (simp only: getAll_set if_False)

lemma cookies_reach_client:
  assumes "res_status response \<notin> set redirectStatuses"
    and "rewriteResponse env request actualUrlStr response = Inr r"
  shows "headers_getAll ''Set-Cookie'' (res_headers r)
       = map rewriteCookie (headers_getAll ''Set-Cookie'' (res_headers response))"
proof -
  have "res_headers r = setCorsHeaders (setNoCacheHeaders (handleSetCookieHeaders response))
      \<or> (\<exists>v. res_headers r = setCorsHeaders (setNoCacheHeaders
             (headers_set ''Content-Length'' v (handleSetCookieHeaders response))))"
  proof (cases "case headers_get ''Content-Type'' (res_headers response) of
                  None \<Rightarrow> False | Some ct \<Rightarrow> includesStr ct ''text/html''")
    case True
    then show ?thesis
      using assms unfolding rewriteResponse_def Let_def
      by (cases "handleHtmlContent env response (protocol (req_url request))
                   (host (req_url request)) actualUrlStr") auto
  next
    case False
    then show ?thesis
      using assms unfolding rewriteResponse_def Let_def by auto
  qed
  then have "headers_getAll ''Set-Cookie'' (res_headers r)
      = headers_getAll ''Set-Cookie'' (handleSetCookieHeaders response)"
    using cookie_names(1) by (auto simp: cookies_after_finalizer getAll_set)
  then show ?thesis
    by (simp only: cookies_one_to_one)
qed

end
